theory Spec2Isabelle
  imports Complex_Main "HOL-Library.Sublist"
begin

section \<open>The pending-edit buffer of the workout history page\<close>

text \<open>
  This theory embeds the pending-change logic of
  \<^verbatim>\<open>src/react-app/pages/HistorySummary.tsx\<close>: the ledger of uncommitted changes
  (\<^verbatim>\<open>PendingChanges\<close>), the handlers that record into it, the two display
  projections, the filter that runs when the page is restored, and the save routine.
  React state is passed explicitly: every handler takes the component state and returns
  the next one. Alerts, navigations, HTTP requests, the session storage and timers are
  fields of that state.
\<close>

subsection \<open>Numbers and strings of the host language\<close>

text \<open>
  Identifiers are TypeScript numbers. They are integers whenever they come from the
  server or from a counter, and \<^verbatim>\<open>NaN\<close> when \<^verbatim>\<open>parseInt\<close> finds no digits.
  Integers are taken exactly (the safe-integer range of the host is not modelled).
\<close>

datatype jsnum = NaN | Num int

text \<open>\<^verbatim>\<open>a === b\<close> on numbers: \<^verbatim>\<open>NaN\<close> equals nothing.\<close>

fun strictEq :: "jsnum \<Rightarrow> jsnum \<Rightarrow> bool" where
  "strictEq (Num a) (Num b) = (a = b)"
| "strictEq _ _ = False"

text \<open>\<^verbatim>\<open>x < 0\<close>: false for \<^verbatim>\<open>NaN\<close>.\<close>

fun ltZero :: "jsnum \<Rightarrow> bool" where
  "ltZero (Num a) = (a < 0)"
| "ltZero NaN = False"

text \<open>Truthiness of a number: \<^verbatim>\<open>0\<close> and \<^verbatim>\<open>NaN\<close> are falsy.\<close>

fun truthyNum :: "jsnum \<Rightarrow> bool" where
  "truthyNum (Num a) = (a \<noteq> 0)"
| "truthyNum NaN = False"

fun negNum :: "jsnum \<Rightarrow> jsnum" where
  "negNum (Num a) = Num (- a)"
| "negNum NaN = NaN"

fun absNum :: "jsnum \<Rightarrow> jsnum" where
  "absNum (Num a) = Num (abs a)"
| "absNum NaN = NaN"

definition digitChar :: "nat \<Rightarrow> char" where
  "digitChar d = char_of (48 + d)"

function showNat :: "nat \<Rightarrow> string" where
  "showNat n = (if n < 10 then [digitChar n] else showNat (n div 10) @ [digitChar (n mod 10)])"
  by pat_completeness auto
termination
  by (relation "measure (\<lambda>n. n)") auto

declare showNat.simps [simp del]

text \<open>\<^verbatim>\<open>String(x)\<close>, \<^verbatim>\<open>x.toString()\<close> and \<^verbatim>\<open>`${x}`\<close> for a number.\<close>

fun toString :: "jsnum \<Rightarrow> string" where
  "toString NaN = ''NaN''"
| "toString (Num a) = (if a < 0 then CHR ''-'' # showNat (nat (- a)) else showNat (nat a))"

text \<open>\<^verbatim>\<open>s.startsWith(p)\<close>.\<close>

definition startsWith :: "string \<Rightarrow> string \<Rightarrow> bool" where
  "startsWith s p = (take (length p) s = p)"

text \<open>\<^verbatim>\<open>s.split(c)\<close> for a one-character separator; the result is never empty.\<close>

fun split :: "char \<Rightarrow> string \<Rightarrow> string list" where
  "split c [] = [[]]"
| "split c (x # xs) =
     (if x = c then [] # split c xs
      else (case split c xs of [] \<Rightarrow> [[x]] | w # ws \<Rightarrow> (x # w) # ws))"

definition isWhiteSpace :: "char \<Rightarrow> bool" where
  "isWhiteSpace c = (c \<in> set [CHR '' '', CHR 0x09, CHR 0x0A, CHR 0x0B, CHR 0x0C, CHR 0x0D])"

definition digitOf :: "nat \<Rightarrow> char \<Rightarrow> nat option" where
  "digitOf radix c =
     (let k = of_char c :: nat;
          v = (if 48 \<le> k \<and> k \<le> 57 then Some (k - 48)
               else if 97 \<le> k \<and> k \<le> 122 then Some (k - 87)
               else if 65 \<le> k \<and> k \<le> 90 then Some (k - 55)
               else None)
      in case v of None \<Rightarrow> None | Some d \<Rightarrow> if d < radix then Some d else None)"

definition digitsValue :: "nat \<Rightarrow> string \<Rightarrow> nat" where
  "digitsValue radix ds =
     foldl (\<lambda>acc c. acc * radix + (case digitOf radix c of Some d \<Rightarrow> d | None \<Rightarrow> 0)) 0 ds"

text \<open>
  \<^verbatim>\<open>parseInt(s)\<close> without a radix: leading white space is skipped (the ASCII white
  space characters here), then an optional sign, then \<^verbatim>\<open>0x\<close> selects radix 16,
  then the longest run of digits is read. No digit gives \<^verbatim>\<open>NaN\<close>.
\<close>

definition parseInt :: "string \<Rightarrow> jsnum" where
  "parseInt s =
     (let s1 = dropWhile isWhiteSpace s;
          neg = (case s1 of c # _ \<Rightarrow> c = CHR ''-'' | [] \<Rightarrow> False);
          s2 = (case s1 of c # r \<Rightarrow> if c = CHR ''-'' \<or> c = CHR ''+'' then r else s1 | [] \<Rightarrow> s1);
          hex = (take 2 s2 = ''0x'' \<or> take 2 s2 = ''0X'');
          radix = (if hex then 16 else 10);
          s3 = (if hex then drop 2 s2 else s2);
          ds = takeWhile (\<lambda>c. digitOf radix c \<noteq> None) s3
      in if ds = [] then NaN
         else Num ((if neg then - 1 else 1) * int (digitsValue radix ds)))"

text \<open>\<^verbatim>\<open>parseInt(parts[i])\<close>: a missing element is \<^verbatim>\<open>undefined\<close>, which parses to \<^verbatim>\<open>NaN\<close>.\<close>

definition parseIntAt :: "string list \<Rightarrow> nat \<Rightarrow> jsnum" where
  "parseIntAt parts i = (if i < length parts then parseInt (parts ! i) else NaN)"

subsection \<open>The host language's Map\<close>

text \<open>
  A \<^verbatim>\<open>Map\<close> is an association list in insertion order.
  \<^verbatim>\<open>set\<close> on a key that is present replaces the value and keeps the position.
\<close>

fun mapSet :: "'k \<Rightarrow> 'v \<Rightarrow> ('k \<times> 'v) list \<Rightarrow> ('k \<times> 'v) list" where
  "mapSet k v [] = [(k, v)]"
| "mapSet k v (p # m) = (if fst p = k then (k, v) # m else p # mapSet k v m)"

definition mapGet :: "('k \<times> 'v) list \<Rightarrow> 'k \<Rightarrow> 'v option" where
  "mapGet m k = map_of m k"

definition mapHas :: "('k \<times> 'v) list \<Rightarrow> 'k \<Rightarrow> bool" where
  "mapHas m k = (k \<in> set (map fst m))"

definition mapDelete :: "'k \<Rightarrow> ('k \<times> 'v) list \<Rightarrow> ('k \<times> 'v) list" where
  "mapDelete k m = filter (\<lambda>p. fst p \<noteq> k) m"

text \<open>\<^verbatim>\<open>new Map(entries)\<close>: the entries are set one after the other.\<close>

definition newMap :: "('k \<times> 'v) list \<Rightarrow> ('k \<times> 'v) list" where
  "newMap entries = foldl (\<lambda>m p. mapSet (fst p) (snd p) m) [] entries"

subsection \<open>Entities\<close>

record WorkoutSet =
  ws_id :: jsnum
  ws_workout_exercise_id :: jsnum
  ws_set_number :: int
  ws_weight_lbs :: "rat option"
  ws_reps :: "int option"
  ws_duration_seconds :: "int option"
  ws_distance_miles :: "rat option"
  ws_notes :: "string option"
  ws_completed_at :: "string option"

record WorkoutExercise =
  we_id :: jsnum
  we_workout_id :: int
  we_exercise_id :: int
  we_order_index :: int
  we_name :: string
  we_category :: string
  we_muscle_group :: string
  we_equipment :: string
  we_video_url :: "string option"
  we_sets :: "WorkoutSet list"

record WorkoutSummary =
  wk_id :: int
  wk_name :: "string option"
  wk_notes :: "string option"
  wk_started_at :: string
  wk_completed_at :: string
  wk_duration_minutes :: int
  wk_intensity_level :: "int option"
  wk_exercises :: "WorkoutExercise list"

subsection \<open>The ledger\<close>

text \<open>
  \<^verbatim>\<open>setData\<close> of an edit carries the three keys that \<^verbatim>\<open>handleUpdateSet\<close>
  writes. A key is absent (\<open>None\<close>) or present with a value that may be
  \<^verbatim>\<open>undefined\<close> (\<open>Some None\<close>).
\<close>

record SetPatch =
  sp_weight_lbs :: "rat option option"
  sp_reps :: "int option option"
  sp_notes :: "string option option"

datatype SetChangeType = Edit | Delete | Add

record PendingSetChange =
  psc_id :: jsnum
  psc_type :: SetChangeType
  psc_setData :: "SetPatch option"
  psc_originalSet :: "WorkoutSet option"

datatype ExerciseChangeType = ExDelete | ExReplace

record PendingExerciseChange =
  pec_id :: jsnum
  pec_type :: ExerciseChangeType
  pec_newExerciseId :: "int option"
  pec_newExerciseName :: "string option"

record PendingNewExercise =
  pne_exerciseId :: int
  pne_name :: string
  pne_category :: string
  pne_muscle_group :: string
  pne_equipment :: string
  pne_video_url :: "string option"
  pne_tempId :: string

text \<open>\<^verbatim>\<open>Omit<WorkoutSet, 'id'>\<close>.\<close>

record NewSetData =
  ns_workout_exercise_id :: jsnum
  ns_set_number :: int
  ns_weight_lbs :: "rat option"
  ns_reps :: "int option"
  ns_duration_seconds :: "int option"
  ns_distance_miles :: "rat option"
  ns_notes :: "string option"
  ns_completed_at :: "string option"

text \<open>
  \<^verbatim>\<open>Partial<WorkoutSummary>\<close> with the keys the header dialogs write. \<open>None\<close> is an
  absent key; the notes may be present and \<^verbatim>\<open>null\<close>.
\<close>

record HeaderPatch =
  hp_name :: "string option"
  hp_notes :: "string option option"
  hp_started_at :: "string option"
  hp_completed_at :: "string option"
  hp_duration_minutes :: "int option"
  hp_intensity_level :: "int option"

record PendingChanges =
  pc_workout :: "HeaderPatch option"
  pc_sets :: "(jsnum \<times> PendingSetChange) list"
  pc_exercises :: "(jsnum \<times> PendingExerciseChange) list"
  pc_newSets :: "(string \<times> NewSetData) list"
  pc_newExercises :: "(string \<times> PendingNewExercise) list"

definition emptyPendingChanges :: PendingChanges where
  "emptyPendingChanges =
     \<lparr> pc_workout = None, pc_sets = [], pc_exercises = [], pc_newSets = [],
       pc_newExercises = [] \<rparr>"

definition emptyHeaderPatch :: HeaderPatch where
  "emptyHeaderPatch =
     \<lparr> hp_name = None, hp_notes = None, hp_started_at = None, hp_completed_at = None,
       hp_duration_minutes = None, hp_intensity_level = None \<rparr>"

text \<open>\<^verbatim>\<open>Object.keys(patch).length\<close>.\<close>

definition headerKeys :: "HeaderPatch \<Rightarrow> nat" where
  "headerKeys p =
     (if hp_name p = None then 0 else 1) + (if hp_notes p = None then 0 else 1) +
     (if hp_started_at p = None then 0 else 1) + (if hp_completed_at p = None then 0 else 1) +
     (if hp_duration_minutes p = None then 0 else 1) +
     (if hp_intensity_level p = None then 0 else 1)"

subsection \<open>Requests, responses and the component state\<close>

text \<open>
  \<^verbatim>\<open>ExerciseDetails\<close> is the body of \<^verbatim>\<open>GET /api/exercises/:id\<close> as the page reads it.
\<close>

record ExerciseDetails =
  ed_id :: int
  ed_name :: string
  ed_category :: string
  ed_muscle_group :: string
  ed_equipment :: string
  ed_video_url :: "string option"

datatype Request =
    PatchWorkout int HeaderPatch
  | PutSet jsnum "SetPatch option"
  | DeleteSet jsnum
  | PostSet jsnum NewSetData
  | PostExercise int int int
  | DeleteWorkoutExercise jsnum
  | PutReplaceExercise jsnum int
  | GetWorkout string
  | GetWorkoutNoCache string nat
  | GetExercise int

datatype Body = NoBody | WorkoutBody WorkoutSummary | ExerciseBody ExerciseDetails

text \<open>
  A \<^verbatim>\<open>fetch\<close> resolves with \<^verbatim>\<open>response.ok\<close> true or false, or rejects. A rejection
  carries the message of the thrown \<^verbatim>\<open>Error\<close>, or nothing when the thrown value is
  not an \<^verbatim>\<open>Error\<close>. \<open>NoBody\<close> is a body that is not read, or that
  \<^verbatim>\<open>response.json()\<close> cannot turn into the object the caller expects; a caller that
  reads such a body ends in its \<^verbatim>\<open>catch\<close> block.
\<close>

datatype Response = Ok Body | NotOk | Rejected "string option"

text \<open>
  The remote store is any function from the number of requests issued so far to the
  response of the next one.
\<close>

type_synonym Remote = "nat \<Rightarrow> Response"

datatype SelectionMode = ModeAdd | ModeReplace

text \<open>
  The stored hand-off record as \<^verbatim>\<open>fetchWorkoutSummaryWithPendingPreservation\<close>
  reads it after \<^verbatim>\<open>JSON.parse\<close>. An absent list is read as \<^verbatim>\<open>[]\<close>.
\<close>

record Preservation =
  pv_timestamp :: int
  pv_workout :: "HeaderPatch option"
  pv_sets :: "(jsnum \<times> PendingSetChange) list"
  pv_exercises :: "(jsnum \<times> PendingExerciseChange) list"
  pv_newSets :: "(string \<times> NewSetData) list"
  pv_newExercises :: "(string \<times> PendingNewExercise) list"
  pv_tempSetIdCounter :: "int option"

text \<open>
  The component state. The text fields of the set dialogs are not kept: the values the
  handlers parse from them are arguments (\<open>SetForm\<close>). \<open>routeId\<close> is the \<^verbatim>\<open>id\<close>
  route parameter. The last five fields are the world outside the component.
\<close>

record State =
  routeId :: string
  originalWorkout :: "WorkoutSummary option"
  workout :: "WorkoutSummary option"
  loading :: bool
  tempWorkoutName :: string
  tempStartDateTime :: string
  tempEndDateTime :: string
  tempIntensity :: int
  tempWorkoutNotes :: string
  isSaving :: bool
  exerciseMenuOpen :: "jsnum option"
  setMenuOpen :: "string option"
  editingSet :: "WorkoutSet option"
  showEditSetDialog :: bool
  showAddSetDialog :: bool
  addingSetToExercise :: "jsnum option"
  showExerciseSelectionModal :: bool
  exerciseSelectionMode :: SelectionMode
  replacingExerciseId :: "jsnum option"
  pendingChanges :: PendingChanges
  tempSetIdCounter :: int
  isRestoring :: bool
  alerts :: "string list"
  navigations :: "string list"
  requests :: "Request list"
  sessionStorage :: "(string \<times> string) list"
  timers :: "(nat \<times> string) list"

text \<open>
  The values derived from the weight, repetitions and notes fields of a set dialog
  (\<^verbatim>\<open>weightInLbs\<close>, \<^verbatim>\<open>reps > 0 ? reps : undefined\<close>, the trimmed notes).
\<close>

record SetForm =
  sf_weightInLbs :: "rat option"
  sf_reps :: "int option"
  sf_notes :: "string option"

definition alert :: "string \<Rightarrow> State \<Rightarrow> State" where
  "alert msg st = st\<lparr>alerts := alerts st @ [msg]\<rparr>"

definition navigate :: "string \<Rightarrow> State \<Rightarrow> State" where
  "navigate path st = st\<lparr>navigations := navigations st @ [path]\<rparr>"

definition fetch :: "Remote \<Rightarrow> Request \<Rightarrow> State \<Rightarrow> Response \<times> State" where
  "fetch remote r st = (remote (length (requests st)), st\<lparr>requests := requests st @ [r]\<rparr>)"

subsection \<open>Recording into the ledger\<close>

definition handleEditSet :: "WorkoutSet \<Rightarrow> State \<Rightarrow> State" where
  "handleEditSet s st =
     st\<lparr>editingSet := Some s, showEditSetDialog := True, setMenuOpen := None\<rparr>"

definition handleUpdateSet :: "SetForm \<Rightarrow> State \<Rightarrow> State" where
  "handleUpdateSet form st =
     (case editingSet st of
        None \<Rightarrow> st
      | Some es \<Rightarrow>
          let updatedSetData =
                \<lparr> sp_weight_lbs = Some (sf_weightInLbs form), sp_reps = Some (sf_reps form),
                  sp_notes = Some (sf_notes form) \<rparr>;
              prev = pendingChanges st;
              newSets = mapSet (ws_id es)
                \<lparr> psc_id = ws_id es, psc_type = Edit, psc_setData = Some updatedSetData,
                  psc_originalSet = Some es \<rparr>
                (newMap (pc_sets prev));
              overlay = (\<lambda>s. if strictEq (ws_id s) (ws_id es)
                   then s\<lparr>ws_weight_lbs := sf_weightInLbs form, ws_reps := sf_reps form,
                          ws_notes := sf_notes form\<rparr>
                   else s)
          in st\<lparr>pendingChanges := prev\<lparr>pc_sets := newSets\<rparr>,
                workout := map_option
                  (\<lambda>w. w\<lparr>wk_exercises :=
                     map (\<lambda>e. e\<lparr>we_sets := map overlay (we_sets e)\<rparr>) (wk_exercises w)\<rparr>)
                  (workout st),
                showEditSetDialog := False,
                editingSet := None\<rparr>)"

text \<open>\<open>confirmed\<close> is the answer to \<^verbatim>\<open>window.confirm\<close>.\<close>

definition handleDeleteExercise :: "bool \<Rightarrow> jsnum \<Rightarrow> State \<Rightarrow> State" where
  "handleDeleteExercise confirmed exerciseId st =
     (if workout st = None then st
      else if \<not> confirmed then st
      else
        let prev = pendingChanges st;
            pc' = (if ltZero exerciseId
                   then prev\<lparr>pc_newExercises :=
                          mapDelete (toString (absNum exerciseId)) (newMap (pc_newExercises prev))\<rparr>
                   else prev\<lparr>pc_exercises :=
                          mapSet exerciseId
                            \<lparr> pec_id = exerciseId, pec_type = ExDelete,
                              pec_newExerciseId = None, pec_newExerciseName = None \<rparr>
                            (newMap (pc_exercises prev))\<rparr>)
        in st\<lparr>pendingChanges := pc', exerciseMenuOpen := None\<rparr>)"

definition handleDeleteSet :: "bool \<Rightarrow> jsnum \<Rightarrow> State \<Rightarrow> State" where
  "handleDeleteSet confirmed setId st =
     (if workout st = None then st
      else if \<not> confirmed then st
      else
        let prev = pendingChanges st;
            newSets = mapSet setId
              \<lparr> psc_id = setId, psc_type = Delete, psc_setData = None, psc_originalSet = None \<rparr>
              (newMap (pc_sets prev))
        in st\<lparr>pendingChanges := prev\<lparr>pc_sets := newSets\<rparr>, setMenuOpen := None\<rparr>)"

definition handleAddExercise :: "State \<Rightarrow> State" where
  "handleAddExercise st =
     (if workout st = None then st
      else st\<lparr>exerciseSelectionMode := ModeAdd, replacingExerciseId := None,
              showExerciseSelectionModal := True\<rparr>)"

definition handleReplaceExercise :: "jsnum \<Rightarrow> State \<Rightarrow> State" where
  "handleReplaceExercise exerciseId st =
     (if workout st = None then st
      else st\<lparr>exerciseMenuOpen := None, exerciseSelectionMode := ModeReplace,
              replacingExerciseId := Some exerciseId, showExerciseSelectionModal := True\<rparr>)"

text \<open>
  \<^verbatim>\<open>fetch('/api/exercises/' + id)\<close> followed by \<^verbatim>\<open>response.json()\<close>: the details, or
  nothing when the call fails in any way.
\<close>

definition fetchExercise :: "Remote \<Rightarrow> int \<Rightarrow> State \<Rightarrow> ExerciseDetails option \<times> State" where
  "fetchExercise remote exerciseId st =
     (case fetch remote (GetExercise exerciseId) st of
        (Ok (ExerciseBody d), st') \<Rightarrow> (Some d, st')
      | (_, st') \<Rightarrow> (None, st'))"

fun fetchExercises :: "Remote \<Rightarrow> int list \<Rightarrow> State \<Rightarrow> ExerciseDetails option list \<times> State" where
  "fetchExercises remote [] st = ([], st)"
| "fetchExercises remote (i # is) st =
     (case fetchExercise remote i st of
        (d, st') \<Rightarrow> (case fetchExercises remote is st' of (ds, st'') \<Rightarrow> (d # ds, st'')))"

text \<open>\<open>now\<close> is \<^verbatim>\<open>Date.now()\<close>.\<close>

definition newExerciseEntry :: "nat \<Rightarrow> nat \<Rightarrow> ExerciseDetails \<Rightarrow> string \<times> PendingNewExercise" where
  "newExerciseEntry now index exercise =
     (let tempId = toString (Num (int (now + index)))
      in (tempId,
          \<lparr> pne_exerciseId = ed_id exercise, pne_name = ed_name exercise,
            pne_category = ed_category exercise, pne_muscle_group = ed_muscle_group exercise,
            pne_equipment = ed_equipment exercise, pne_video_url = ed_video_url exercise,
            pne_tempId = tempId \<rparr>))"

definition failedToProcess :: string where
  "failedToProcess = ''Failed to process exercises. Please try again.''"

definition handleAddSelectedExercises :: "Remote \<Rightarrow> nat \<Rightarrow> int list \<Rightarrow> State \<Rightarrow> State" where
  "handleAddSelectedExercises remote now selectedExerciseIds st =
     (if workout st = None \<or> selectedExerciseIds = [] then st
      else if exerciseSelectionMode st = ModeReplace \<and>
              (case replacingExerciseId st of Some r \<Rightarrow> truthyNum r | None \<Rightarrow> False)
      then
        (case (replacingExerciseId st, selectedExerciseIds) of
           (Some r, [newExerciseId]) \<Rightarrow>
             (case fetchExercise remote newExerciseId st of
                (None, st') \<Rightarrow> alert failedToProcess st'
              | (Some newExercise, st') \<Rightarrow>
                  let prev = pendingChanges st'
                  in st'\<lparr>pendingChanges := prev\<lparr>pc_exercises :=
                       mapSet r
                         \<lparr> pec_id = r, pec_type = ExReplace,
                           pec_newExerciseId = Some newExerciseId,
                           pec_newExerciseName = Some (ed_name newExercise) \<rparr>
                         (newMap (pc_exercises prev))\<rparr>\<rparr>)
         | _ \<Rightarrow> alert ''Please select exactly one exercise for replacement.'' st)
      else
        (case fetchExercises remote selectedExerciseIds st of
           (details, st') \<Rightarrow>
             if None \<in> set details then alert failedToProcess st'
             else
               let exerciseDetails = map the details;
                   newExerciseEntries =
                     map (\<lambda>(index, exercise). newExerciseEntry now index exercise)
                       (zip [0 ..< length exerciseDetails] exerciseDetails);
                   prev = pendingChanges st'
               in st'\<lparr>pendingChanges := prev\<lparr>pc_newExercises :=
                    newMap (pc_newExercises prev @ newExerciseEntries)\<rparr>\<rparr>))"

definition handleAddSet :: "jsnum \<Rightarrow> State \<Rightarrow> State" where
  "handleAddSet exerciseId st =
     (if ltZero exerciseId
      then alert ''Please save all changes first before adding sets to new exercises.'' st
      else st\<lparr>addingSetToExercise := Some exerciseId, showAddSetDialog := True\<rparr>)"

subsection \<open>The display projections\<close>

text \<open>\<^verbatim>\<open>{ ...set, ...setData }\<close>: a key that is present overrides, also with \<^verbatim>\<open>undefined\<close>.\<close>

definition applySetPatch :: "SetPatch \<Rightarrow> WorkoutSet \<Rightarrow> WorkoutSet" where
  "applySetPatch d s =
     s\<lparr>ws_weight_lbs := (case sp_weight_lbs d of None \<Rightarrow> ws_weight_lbs s | Some v \<Rightarrow> v),
       ws_reps := (case sp_reps d of None \<Rightarrow> ws_reps s | Some v \<Rightarrow> v),
       ws_notes := (case sp_notes d of None \<Rightarrow> ws_notes s | Some v \<Rightarrow> v)\<rparr>"

text \<open>\<^verbatim>\<open>{ ...setData, id }\<close> for a pending new set.\<close>

definition newSetWithId :: "NewSetData \<Rightarrow> jsnum \<Rightarrow> WorkoutSet" where
  "newSetWithId d i =
     \<lparr> ws_id = i, ws_workout_exercise_id = ns_workout_exercise_id d,
       ws_set_number = ns_set_number d, ws_weight_lbs = ns_weight_lbs d, ws_reps = ns_reps d,
       ws_duration_seconds = ns_duration_seconds d, ws_distance_miles = ns_distance_miles d,
       ws_notes = ns_notes d, ws_completed_at = ns_completed_at d \<rparr>"

definition applyPendingEdit :: "PendingChanges \<Rightarrow> WorkoutSet \<Rightarrow> WorkoutSet" where
  "applyPendingEdit pc s =
     (case mapGet (pc_sets pc) (ws_id s) of
        Some pendingChange \<Rightarrow>
          if psc_type pendingChange = Edit
          then (case psc_setData pendingChange of Some d \<Rightarrow> applySetPatch d s | None \<Rightarrow> s)
          else s
      | None \<Rightarrow> s)"

definition notPendingDelete :: "PendingChanges \<Rightarrow> WorkoutSet \<Rightarrow> bool" where
  "notPendingDelete pc s =
     (case mapGet (pc_sets pc) (ws_id s) of
        Some pendingChange \<Rightarrow> psc_type pendingChange \<noteq> Delete
      | None \<Rightarrow> True)"

definition newSetsForExercise :: "PendingChanges \<Rightarrow> WorkoutExercise \<Rightarrow> WorkoutSet list" where
  "newSetsForExercise pc exercise =
     map (\<lambda>(key, setData). newSetWithId setData (negNum (parseIntAt (split CHR ''-'' key) 1)))
       (filter (\<lambda>(key, setData). startsWith key (toString (we_id exercise) @ ''-''))
          (pc_newSets pc))"

text \<open>
  \<^verbatim>\<open>Array.prototype.sort\<close> is stable, and so is \<^const>\<open>sort_key\<close>.
\<close>

definition getDisplaySets :: "PendingChanges \<Rightarrow> WorkoutExercise \<Rightarrow> WorkoutSet list" where
  "getDisplaySets pc exercise =
     (let sets = filter (notPendingDelete pc) (map (applyPendingEdit pc) (we_sets exercise))
      in sort_key ws_set_number (sets @ newSetsForExercise pc exercise))"

definition applyPendingReplace :: "PendingChanges \<Rightarrow> WorkoutExercise \<Rightarrow> WorkoutExercise" where
  "applyPendingReplace pc exercise =
     (case mapGet (pc_exercises pc) (we_id exercise) of
        Some pendingChange \<Rightarrow>
          (case pec_newExerciseName pendingChange of
             Some newName \<Rightarrow>
               if pec_type pendingChange = ExReplace \<and> newName \<noteq> []
               then exercise\<lparr>we_name := newName,
                      we_exercise_id :=
                        (case pec_newExerciseId pendingChange of
                           Some n \<Rightarrow> if n \<noteq> 0 then n else we_exercise_id exercise
                         | None \<Rightarrow> we_exercise_id exercise)\<rparr>
               else exercise
           | None \<Rightarrow> exercise)
      | None \<Rightarrow> exercise)"

definition exerciseNotPendingDelete :: "PendingChanges \<Rightarrow> WorkoutExercise \<Rightarrow> bool" where
  "exerciseNotPendingDelete pc exercise =
     (case mapGet (pc_exercises pc) (we_id exercise) of
        Some pendingChange \<Rightarrow> pec_type pendingChange \<noteq> ExDelete
      | None \<Rightarrow> True)"

definition newExerciseRow :: "WorkoutSummary \<Rightarrow> nat \<Rightarrow> nat \<times> PendingNewExercise \<Rightarrow> WorkoutExercise" where
  "newExerciseRow w existing p =
     (case p of (index, newExercise) \<Rightarrow>
        \<lparr> we_id = negNum (parseInt (pne_tempId newExercise)),
          we_workout_id = wk_id w,
          we_exercise_id = pne_exerciseId newExercise,
          we_order_index = int (existing + index),
          we_name = pne_name newExercise,
          we_category = pne_category newExercise,
          we_muscle_group = pne_muscle_group newExercise,
          we_equipment = pne_equipment newExercise,
          we_video_url = pne_video_url newExercise,
          we_sets = [] \<rparr>)"

definition getDisplayExercises :: "State \<Rightarrow> WorkoutExercise list" where
  "getDisplayExercises st =
     (case workout st of
        None \<Rightarrow> []
      | Some w \<Rightarrow>
          let pc = pendingChanges st;
              existingExercises =
                filter (exerciseNotPendingDelete pc) (map (applyPendingReplace pc) (wk_exercises w));
              values = map snd (pc_newExercises pc);
              newExercises =
                map (newExerciseRow w (length existingExercises)) (zip [0 ..< length values] values)
          in existingExercises @ newExercises)"

definition hasPendingChanges :: "State \<Rightarrow> bool" where
  "hasPendingChanges st =
     (let pc = pendingChanges st
      in 0 < length (pc_sets pc) \<or> 0 < length (pc_exercises pc) \<or>
         0 < length (pc_newSets pc) \<or> 0 < length (pc_newExercises pc) \<or>
         (case pc_workout pc of Some p \<Rightarrow> 0 < headerKeys p | None \<Rightarrow> False))"

text \<open>
  The set menu of a displayed set is rendered only under \<^verbatim>\<open>!isPendingDelete\<close>.
\<close>

definition isPendingDelete :: "PendingChanges \<Rightarrow> WorkoutSet \<Rightarrow> bool" where
  "isPendingDelete pc s =
     (mapHas (pc_sets pc) (ws_id s) \<and>
      (case mapGet (pc_sets pc) (ws_id s) of Some c \<Rightarrow> psc_type c = Delete | None \<Rightarrow> False))"

definition setMenuRendered :: "PendingChanges \<Rightarrow> WorkoutExercise \<Rightarrow> WorkoutSet \<Rightarrow> bool" where
  "setMenuRendered pc exercise s =
     (s \<in> set (getDisplaySets pc exercise) \<and> \<not> isPendingDelete pc s)"

subsection \<open>Adding a set\<close>

text \<open>\<open>now\<close> is \<^verbatim>\<open>new Date().toISOString()\<close>.\<close>

text \<open>
  Set numbers are host numbers, that is doubles; the model holds the integer that such
  a double is. \<open>plusOne x\<close> is the double \<^verbatim>\<open>x + 1\<close> for an integer-valued double
  \<open>x\<close>: exact from \<open>- 2^53\<close> up to \<open>2^53 - 1\<close>; between \<open>2^53\<close> and \<open>2^54\<close> in
  magnitude the doubles are the even integers and the sum lies half way between two of
  them, so it is rounded to the one whose significand is even (the multiple of 4); from
  \<open>2^54\<close> on the sum is rounded back to \<open>x\<close>. \<^verbatim>\<open>Math.max\<close> is exact.
\<close>

definition plusOne :: "int \<Rightarrow> int" where
  "plusOne x =
     (if - 9007199254740992 \<le> x \<and> x < 9007199254740992 then x + 1
      else if - 18014398509481984 < x \<and> x < 18014398509481984
      then (if x mod 4 = 0 then x else x + 2)
      else x)"

text \<open>\<^verbatim>\<open>Number.isSafeInteger\<close>.\<close>

definition isSafeInteger :: "int \<Rightarrow> bool" where
  "isSafeInteger x = (- 9007199254740991 \<le> x \<and> x \<le> 9007199254740991)"

definition nextSetNumber :: "WorkoutSet list \<Rightarrow> int" where
  "nextSetNumber existingSets =
     (if existingSets \<noteq> [] then plusOne (Max (set (map ws_set_number existingSets))) else 1)"

definition newSetKey :: "jsnum \<Rightarrow> int \<Rightarrow> string" where
  "newSetKey exerciseId tempId = toString exerciseId @ ''-'' @ toString (Num tempId)"

definition handleSaveNewSet :: "SetForm \<Rightarrow> string \<Rightarrow> State \<Rightarrow> State" where
  "handleSaveNewSet form now st =
     (case addingSetToExercise st of
        None \<Rightarrow> st
      | Some adding \<Rightarrow>
          if \<not> truthyNum adding then st
          else
            (case workout st of
               None \<Rightarrow> st
             | Some w \<Rightarrow>
                 (case find (\<lambda>ex. strictEq (we_id ex) adding) (wk_exercises w) of
                    None \<Rightarrow> st
                  | Some exercise \<Rightarrow>
                      let existingSets = getDisplaySets (pendingChanges st) exercise;
                          newSetData =
                            \<lparr> ns_workout_exercise_id = adding,
                              ns_set_number = nextSetNumber existingSets,
                              ns_weight_lbs = sf_weightInLbs form,
                              ns_reps = sf_reps form,
                              ns_duration_seconds = None,
                              ns_distance_miles = None,
                              ns_notes = sf_notes form,
                              ns_completed_at = Some now \<rparr>;
                          tempId = tempSetIdCounter st;
                          prev = pendingChanges st
                      in st\<lparr>tempSetIdCounter := tempSetIdCounter st + 1,
                            pendingChanges := prev\<lparr>pc_newSets :=
                              mapSet (newSetKey adding tempId) newSetData (newMap (pc_newSets prev))\<rparr>,
                            showAddSetDialog := False,
                            addingSetToExercise := None\<rparr>)))"

subsection \<open>Header changes\<close>

definition handleSaveTitle :: "State \<Rightarrow> State" where
  "handleSaveTitle st =
     (let prev = pendingChanges st;
          p = (case pc_workout prev of Some p \<Rightarrow> p | None \<Rightarrow> emptyHeaderPatch)
      in st\<lparr>pendingChanges := prev\<lparr>pc_workout := Some (p\<lparr>hp_name := Some (tempWorkoutName st)\<rparr>)\<rparr>,
            workout := map_option (\<lambda>w. w\<lparr>wk_name := Some (tempWorkoutName st)\<rparr>) (workout st)\<rparr>)"

text \<open>
  \<open>dateMs\<close> is \<^verbatim>\<open>new Date(s).getTime()\<close> for the texts that the date inputs of the
  duration dialog produce, and \<open>toISOString\<close> prints such a time. The quotient of
  \<^verbatim>\<open>Math.round((end - start) / 60000)\<close> is rounded half up; for a positive whole number
  of milliseconds that is \<open>(d + 30000) div 60000\<close>.
\<close>

definition handleSaveDuration :: "(string \<Rightarrow> int) \<Rightarrow> (int \<Rightarrow> string) \<Rightarrow> State \<Rightarrow> State" where
  "handleSaveDuration dateMs toISOString st =
     (case workout st of
        None \<Rightarrow> st
      | Some w \<Rightarrow>
          if tempStartDateTime st = [] \<or> tempEndDateTime st = [] then st
          else
            (let startTime = dateMs (tempStartDateTime st);
                 endTime = dateMs (tempEndDateTime st)
             in if endTime \<le> startTime then alert ''End time must be after start time'' st
                else
                  (let newDuration = (endTime - startTime + 30000) div 60000;
                       prev = pendingChanges st;
                       p = (case pc_workout prev of Some p \<Rightarrow> p | None \<Rightarrow> emptyHeaderPatch)
                   in st\<lparr>pendingChanges :=
                           prev\<lparr>pc_workout := Some
                             (p\<lparr>hp_started_at := Some (toISOString startTime),
                                hp_completed_at := Some (toISOString endTime),
                                hp_duration_minutes := Some newDuration\<rparr>)\<rparr>,
                         workout := Some
                           (w\<lparr>wk_started_at := toISOString startTime,
                              wk_completed_at := toISOString endTime,
                              wk_duration_minutes := newDuration\<rparr>)\<rparr>)))"

definition handleSaveIntensity :: "State \<Rightarrow> State" where
  "handleSaveIntensity st =
     (let prev = pendingChanges st;
          p = (case pc_workout prev of Some p \<Rightarrow> p | None \<Rightarrow> emptyHeaderPatch)
      in st\<lparr>pendingChanges :=
              prev\<lparr>pc_workout := Some (p\<lparr>hp_intensity_level := Some (tempIntensity st)\<rparr>)\<rparr>,
            workout := map_option (\<lambda>w. w\<lparr>wk_intensity_level := Some (tempIntensity st)\<rparr>)
              (workout st)\<rparr>)"

text \<open>\<^verbatim>\<open>s.trim()\<close>, for the white space that \<open>isWhiteSpace\<close> knows.\<close>

definition trim :: "string \<Rightarrow> string" where
  "trim s = rev (dropWhile isWhiteSpace (rev (dropWhile isWhiteSpace s)))"

text \<open>\<^verbatim>\<open>tempWorkoutNotes.trim() || null\<close>.\<close>

definition trimmedNotes :: "State \<Rightarrow> string option" where
  "trimmedNotes st = (if trim (tempWorkoutNotes st) = [] then None else Some (trim (tempWorkoutNotes st)))"

definition handleSaveNotes :: "State \<Rightarrow> State" where
  "handleSaveNotes st =
     (let prev = pendingChanges st;
          p = (case pc_workout prev of Some p \<Rightarrow> p | None \<Rightarrow> emptyHeaderPatch)
      in st\<lparr>pendingChanges := prev\<lparr>pc_workout := Some (p\<lparr>hp_notes := Some (trimmedNotes st)\<rparr>)\<rparr>,
            workout := map_option (\<lambda>w. w\<lparr>wk_notes := trimmedNotes st\<rparr>) (workout st)\<rparr>)"

subsection \<open>Fetching the workout\<close>

fun uniq :: "'a list \<Rightarrow> 'a list" where
  "uniq [] = []"
| "uniq (x # xs) = x # filter (\<lambda>y. y \<noteq> x) (uniq xs)"

definition generateWorkoutTitle :: "WorkoutExercise list \<Rightarrow> string" where
  "generateWorkoutTitle exercises =
     (if exercises = [] then ''Workout''
      else
        (case uniq (map we_muscle_group exercises) of
           [a] \<Rightarrow> a @ '' Workout''
         | [a, b] \<Rightarrow> a @ '', '' @ b @ '' Workout''
         | a # b # c # _ \<Rightarrow> a @ '', '' @ b @ '', '' @ c @ '' Workout''
         | [] \<Rightarrow> ''Full Body Workout''))"

definition orTitle :: "string option \<Rightarrow> WorkoutExercise list \<Rightarrow> string" where
  "orTitle name exercises =
     (case name of
        Some n \<Rightarrow> if n \<noteq> [] then n else generateWorkoutTitle exercises
      | None \<Rightarrow> generateWorkoutTitle exercises)"

definition fetchWorkoutSummary :: "Remote \<Rightarrow> State \<Rightarrow> State" where
  "fetchWorkoutSummary remote st =
     (case fetch remote (GetWorkout (routeId st)) st of
        (Ok (WorkoutBody data), st') \<Rightarrow>
          st'\<lparr>originalWorkout := Some data,
               workout := Some data,
               tempWorkoutName := orTitle (wk_name data) (wk_exercises data),
               tempIntensity :=
                 (case wk_intensity_level data of Some i \<Rightarrow> if i \<noteq> 0 then i else 3 | None \<Rightarrow> 3),
               tempWorkoutNotes := (case wk_notes data of Some n \<Rightarrow> n | None \<Rightarrow> []),
               pendingChanges := emptyPendingChanges,
               loading := False\<rparr>
      | (_, st') \<Rightarrow> (navigate ''/history'' st')\<lparr>loading := False\<rparr>)"

subsection \<open>Saving all changes\<close>

text \<open>
  A step of the \<^verbatim>\<open>try\<close> block either completes or throws. What is thrown is the
  message of an \<^verbatim>\<open>Error\<close>, or nothing for a value that is not an \<^verbatim>\<open>Error\<close>.
\<close>

type_synonym Thrown = "string option"

type_synonym Step = "State \<Rightarrow> Thrown option \<times> State"

text \<open>
  \<^verbatim>\<open>const response = await fetch(...); if (!response.ok) throw new Error(msg)\<close>.
\<close>

definition expectOk :: "Remote \<Rightarrow> Request \<Rightarrow> string \<Rightarrow> Step" where
  "expectOk remote r msg st =
     (case fetch remote r st of
        (Ok b, st') \<Rightarrow> (None, st')
      | (NotOk, st') \<Rightarrow> (Some (Some msg), st')
      | (Rejected t, st') \<Rightarrow> (Some t, st'))"

definition andThen :: "Step \<Rightarrow> Step \<Rightarrow> Step" where
  "andThen f g st = (case f st of (None, st') \<Rightarrow> g st' | (Some t, st') \<Rightarrow> (Some t, st'))"

fun forEach :: "('a \<Rightarrow> Step) \<Rightarrow> 'a list \<Rightarrow> Step" where
  "forEach f [] st = (None, st)"
| "forEach f (x # xs) st =
     (case f x st of (None, st') \<Rightarrow> forEach f xs st' | (Some t, st') \<Rightarrow> (Some t, st'))"

definition saveWorkoutChanges :: "Remote \<Rightarrow> WorkoutSummary \<Rightarrow> PendingChanges \<Rightarrow> Step" where
  "saveWorkoutChanges remote w pc st =
     (case pc_workout pc of
        Some p \<Rightarrow>
          if 0 < headerKeys p
          then expectOk remote (PatchWorkout (wk_id w) p) ''Failed to update workout details'' st
          else (None, st)
      | None \<Rightarrow> (None, st))"

definition saveSetChange :: "Remote \<Rightarrow> jsnum \<times> PendingSetChange \<Rightarrow> Step" where
  "saveSetChange remote p st =
     (case p of (setId, change) \<Rightarrow>
        if psc_type change = Edit
        then expectOk remote (PutSet setId (psc_setData change))
               (''Failed to update set '' @ toString setId) st
        else if psc_type change = Delete
        then expectOk remote (DeleteSet setId) (''Failed to delete set '' @ toString setId) st
        else (None, st))"

definition saveNewSet :: "Remote \<Rightarrow> string \<times> NewSetData \<Rightarrow> Step" where
  "saveNewSet remote p st =
     (case p of (key, setData) \<Rightarrow>
        expectOk remote (PostSet (ns_workout_exercise_id setData) setData)
          (''Failed to create new set for exercise '' @ toString (ns_workout_exercise_id setData))
          st)"

definition saveNewExercise :: "Remote \<Rightarrow> WorkoutSummary \<Rightarrow> string \<times> PendingNewExercise \<Rightarrow> Step" where
  "saveNewExercise remote w p st =
     (case p of (key, newExercise) \<Rightarrow>
        expectOk remote (PostExercise (wk_id w) (pne_exerciseId newExercise) 0)
          (''Failed to add exercise '' @ pne_name newExercise) st)"

definition saveExerciseChange :: "Remote \<Rightarrow> jsnum \<times> PendingExerciseChange \<Rightarrow> Step" where
  "saveExerciseChange remote p st =
     (case p of (exerciseId, change) \<Rightarrow>
        if pec_type change = ExDelete
        then expectOk remote (DeleteWorkoutExercise exerciseId)
               (''Failed to delete exercise '' @ toString exerciseId) st
        else
          (case pec_newExerciseId change of
             Some n \<Rightarrow>
               if pec_type change = ExReplace \<and> n \<noteq> 0
               then expectOk remote (PutReplaceExercise exerciseId n)
                      (''Failed to replace exercise '' @ toString exerciseId) st
               else (None, st)
           | None \<Rightarrow> (None, st)))"

text \<open>The five loops of the \<^verbatim>\<open>try\<close> block, in the order of the source.\<close>

definition saveAll :: "Remote \<Rightarrow> WorkoutSummary \<Rightarrow> PendingChanges \<Rightarrow> Step" where
  "saveAll remote w pc =
     andThen (saveWorkoutChanges remote w pc)
       (andThen (forEach (saveSetChange remote) (pc_sets pc))
          (andThen (forEach (saveNewSet remote) (pc_newSets pc))
             (andThen (forEach (saveNewExercise remote w) (pc_newExercises pc))
                (forEach (saveExerciseChange remote) (pc_exercises pc)))))"

definition failureReport :: "Thrown \<Rightarrow> string" where
  "failureReport t =
     ''Failed to save changes: '' @ (case t of Some m \<Rightarrow> m | None \<Rightarrow> ''Unknown error'')"

definition handleSaveAllChanges :: "Remote \<Rightarrow> State \<Rightarrow> State" where
  "handleSaveAllChanges remote st =
     (case workout st of
        None \<Rightarrow> st
      | Some w \<Rightarrow>
          if \<not> hasPendingChanges st then st
          else
            (case saveAll remote w (pendingChanges st) (st\<lparr>isSaving := True\<rparr>) of
               (None, st1) \<Rightarrow>
                 (alert ''All changes saved successfully!''
                    (fetchWorkoutSummary remote (st1\<lparr>pendingChanges := emptyPendingChanges\<rparr>)))
                 \<lparr>isSaving := False\<rparr>
             | (Some t, st1) \<Rightarrow> (alert (failureReport t) st1)\<lparr>isSaving := False\<rparr>))"

definition handleDiscardChanges :: "bool \<Rightarrow> State \<Rightarrow> State" where
  "handleDiscardChanges confirmed st =
     (if \<not> confirmed then st
      else
        (let st1 = st\<lparr>pendingChanges := emptyPendingChanges\<rparr>
         in case originalWorkout st of
              None \<Rightarrow> st1
            | Some ow \<Rightarrow>
                st1\<lparr>workout := Some ow,
                    tempWorkoutName := orTitle (wk_name ow) (wk_exercises ow),
                    tempIntensity :=
                      (case wk_intensity_level ow of Some i \<Rightarrow> if i \<noteq> 0 then i else 3 | None \<Rightarrow> 3),
                    tempWorkoutNotes := (case wk_notes ow of Some n \<Rightarrow> n | None \<Rightarrow> [])\<rparr>))"

subsection \<open>Restoring the ledger against fresh data\<close>

definition setStillExists :: "WorkoutSummary \<Rightarrow> jsnum \<Rightarrow> bool" where
  "setStillExists data setId =
     list_ex (\<lambda>ex. list_ex (\<lambda>s. strictEq (ws_id s) setId) (we_sets ex)) (wk_exercises data)"

text \<open>\<^verbatim>\<open>new Set(data.exercises.map(ex => ex.id))\<close>, read through \<^verbatim>\<open>has\<close>.\<close>

definition currentExerciseIds :: "WorkoutSummary \<Rightarrow> jsnum set" where
  "currentExerciseIds data = set (map we_id (wk_exercises data))"

text \<open>
  A loop \<^verbatim>\<open>for (const [k, v] of m) if (valid(k)) out.set(k, v)\<close> into a fresh Map.
\<close>

definition keepValid :: "('k \<Rightarrow> bool) \<Rightarrow> ('k \<times> 'v) list \<Rightarrow> ('k \<times> 'v) list" where
  "keepValid valid m = foldl (\<lambda>out p. if valid (fst p) then mapSet (fst p) (snd p) out else out) [] m"

definition newSetOwner :: "string \<Rightarrow> jsnum" where
  "newSetOwner key = parseIntAt (split CHR ''-'' key) 0"

definition reconcile :: "PendingChanges \<Rightarrow> WorkoutSummary \<Rightarrow> PendingChanges" where
  "reconcile saved data =
     \<lparr> pc_workout = pc_workout saved,
       pc_sets = keepValid (setStillExists data) (pc_sets saved),
       pc_exercises = keepValid (\<lambda>exerciseId. exerciseId \<in> currentExerciseIds data) (pc_exercises saved),
       pc_newSets = keepValid (\<lambda>key. newSetOwner key \<in> currentExerciseIds data) (pc_newSets saved),
       pc_newExercises = keepValid (\<lambda>key. True) (pc_newExercises saved) \<rparr>"

text \<open>\<^verbatim>\<open>{ ...data, ...patch }\<close> on the header.\<close>

definition applyHeaderPatch :: "HeaderPatch \<Rightarrow> WorkoutSummary \<Rightarrow> WorkoutSummary" where
  "applyHeaderPatch p w =
     w\<lparr>wk_name := (case hp_name p of Some n \<Rightarrow> Some n | None \<Rightarrow> wk_name w),
       wk_notes := (case hp_notes p of Some n \<Rightarrow> n | None \<Rightarrow> wk_notes w),
       wk_started_at := (case hp_started_at p of Some t \<Rightarrow> t | None \<Rightarrow> wk_started_at w),
       wk_completed_at := (case hp_completed_at p of Some t \<Rightarrow> t | None \<Rightarrow> wk_completed_at w),
       wk_duration_minutes :=
         (case hp_duration_minutes p of Some d \<Rightarrow> d | None \<Rightarrow> wk_duration_minutes w),
       wk_intensity_level :=
         (case hp_intensity_level p of Some i \<Rightarrow> Some i | None \<Rightarrow> wk_intensity_level w)\<rparr>"

definition preservationKey :: "string \<Rightarrow> string" where
  "preservationKey ident = ''workout-'' @ ident @ ''-preservation''"

text \<open>
  The first half of \<^verbatim>\<open>fetchWorkoutSummaryWithPendingPreservation\<close>: what is to be
  preserved, the counter to restore, and the state after the storage was read.
  \<open>parse\<close> is \<^verbatim>\<open>JSON.parse\<close> followed by the reads of the \<^verbatim>\<open>try\<close> block; it gives
  nothing when any of them throws. In that case the ledger to preserve stays the initial
  object, which has no \<^verbatim>\<open>newExercises\<close>: this is \<open>None\<close> as the first component.
  A blob that was read is kept, and its removal is scheduled after 30000 ms.
\<close>

definition loadSaved ::
  "(string \<Rightarrow> Preservation option) \<Rightarrow> State \<Rightarrow> (PendingChanges option \<times> HeaderPatch option \<times> int) \<times> State"
where
  "loadSaved parse st =
     (let key = preservationKey (routeId st);
          current = pendingChanges st
      in case mapGet (sessionStorage st) key of
           Some (c # cs) \<Rightarrow>
             (case parse (c # cs) of
                Some parsed \<Rightarrow>
                  ((Some \<lparr> pc_workout = pv_workout parsed,
                           pc_sets = newMap (pv_sets parsed),
                           pc_exercises = newMap (pv_exercises parsed),
                           pc_newSets = newMap (pv_newSets parsed),
                           pc_newExercises = newMap (pv_newExercises parsed) \<rparr>,
                    pv_workout parsed,
                    (case pv_tempSetIdCounter parsed of
                       Some n \<Rightarrow> if n \<noteq> 0 then n else tempSetIdCounter st
                     | None \<Rightarrow> tempSetIdCounter st)),
                   st\<lparr>timers := timers st @ [(30000, key)]\<rparr>)
              | None \<Rightarrow> ((None, None, tempSetIdCounter st), st))
         | _ \<Rightarrow>
             ((Some \<lparr> pc_workout = pc_workout current,
                      pc_sets = newMap (pc_sets current),
                      pc_exercises = newMap (pc_exercises current),
                      pc_newSets = newMap (pc_newSets current),
                      pc_newExercises = newMap (pc_newExercises current) \<rparr>,
               pc_workout current,
               tempSetIdCounter st),
              st))"

definition fetchWorkoutSummaryWithPendingPreservation ::
  "(string \<Rightarrow> Preservation option) \<Rightarrow> Remote \<Rightarrow> nat \<Rightarrow> State \<Rightarrow> State"
where
  "fetchWorkoutSummaryWithPendingPreservation parse remote now st =
     (case loadSaved parse (st\<lparr>isRestoring := True\<rparr>) of
        ((saved, savedWorkout, savedTempSetIdCounter), st1) \<Rightarrow>
          (case fetch remote (GetWorkoutNoCache (routeId st1) now) st1 of
             (Ok (WorkoutBody data), st2) \<Rightarrow>
               let patch = (case savedWorkout of Some p \<Rightarrow> p | None \<Rightarrow> emptyHeaderPatch);
                   st3 = st2\<lparr>originalWorkout := Some data,
                            workout := Some (applyHeaderPatch patch data),
                            tempWorkoutName :=
                              (case hp_name patch of
                                 Some n \<Rightarrow> n
                               | None \<Rightarrow>
                                   (case wk_name data of
                                      Some n \<Rightarrow> n
                                    | None \<Rightarrow> generateWorkoutTitle (wk_exercises data))),
                            tempIntensity :=
                              (case hp_intensity_level patch of
                                 Some i \<Rightarrow> i
                               | None \<Rightarrow> (case wk_intensity_level data of Some i \<Rightarrow> i | None \<Rightarrow> 3)),
                            tempWorkoutNotes :=
                              (case hp_notes patch of
                                 Some (Some n) \<Rightarrow> n
                               | _ \<Rightarrow> (case wk_notes data of Some n \<Rightarrow> n | None \<Rightarrow> [])),
                            tempStartDateTime :=
                              (case hp_started_at patch of Some t \<Rightarrow> t | None \<Rightarrow> wk_started_at data),
                            tempEndDateTime :=
                              (case hp_completed_at patch of
                                 Some t \<Rightarrow> t
                               | None \<Rightarrow> wk_completed_at data)\<rparr>
               in (case saved of
                     Some ledger \<Rightarrow>
                       st3\<lparr>pendingChanges := reconcile ledger data,
                           tempSetIdCounter := savedTempSetIdCounter,
                           isRestoring := False,
                           loading := False\<rparr>
                   | None \<Rightarrow> (navigate ''/history'' (st3\<lparr>isRestoring := False\<rparr>))\<lparr>loading := False\<rparr>)
           | (_, st2) \<Rightarrow> (navigate ''/history'' (st2\<lparr>isRestoring := False\<rparr>))\<lparr>loading := False\<rparr>))"

subsection \<open>User actions and the invariant of the ledger\<close>

text \<open>
  The handlers that write to the ledger, as one dispatch. The arguments of an action are
  what the handler reads from the dialog or the environment when it runs.
\<close>

datatype Action =
    ActUpdateSet SetForm
  | ActDeleteSet bool jsnum
  | ActDeleteExercise bool jsnum
  | ActAddSelectedExercises Remote nat "int list"
  | ActSaveNewSet SetForm string
  | ActSaveTitle
  | ActSaveDuration "string \<Rightarrow> int" "int \<Rightarrow> string"
  | ActSaveIntensity
  | ActSaveNotes

fun recordAction :: "Action \<Rightarrow> State \<Rightarrow> State" where
  "recordAction (ActUpdateSet form) st = handleUpdateSet form st"
| "recordAction (ActDeleteSet confirmed setId) st = handleDeleteSet confirmed setId st"
| "recordAction (ActDeleteExercise confirmed exerciseId) st =
     handleDeleteExercise confirmed exerciseId st"
| "recordAction (ActAddSelectedExercises remote now ids) st =
     handleAddSelectedExercises remote now ids st"
| "recordAction (ActSaveNewSet form now) st = handleSaveNewSet form now st"
| "recordAction ActSaveTitle st = handleSaveTitle st"
| "recordAction (ActSaveDuration dateMs toISOString) st = handleSaveDuration dateMs toISOString st"
| "recordAction ActSaveIntensity st = handleSaveIntensity st"
| "recordAction ActSaveNotes st = handleSaveNotes st"

text \<open>Every Map of the ledger holds each key once.\<close>

definition ledgerInv :: "PendingChanges \<Rightarrow> bool" where
  "ledgerInv pc =
     (distinct (map fst (pc_sets pc)) \<and> distinct (map fst (pc_exercises pc)) \<and>
      distinct (map fst (pc_newSets pc)) \<and> distinct (map fst (pc_newExercises pc)))"

text \<open>The entries a Map holds for one key.\<close>

definition entriesFor :: "'k \<Rightarrow> ('k \<times> 'v) list \<Rightarrow> ('k \<times> 'v) list" where
  "entriesFor k m = filter (\<lambda>p. fst p = k) m"

definition deleteEntry :: "jsnum \<Rightarrow> PendingSetChange" where
  "deleteEntry setId =
     \<lparr> psc_id = setId, psc_type = Delete, psc_setData = None, psc_originalSet = None \<rparr>"

definition editEntry :: "WorkoutSet \<Rightarrow> SetForm \<Rightarrow> PendingSetChange" where
  "editEntry es form =
     \<lparr> psc_id = ws_id es, psc_type = Edit,
       psc_setData = Some \<lparr> sp_weight_lbs = Some (sf_weightInLbs form),
                            sp_reps = Some (sf_reps form), sp_notes = Some (sf_notes form) \<rparr>,
       psc_originalSet = Some es \<rparr>"

subsection \<open>Sample data\<close>

text \<open>The initial values of the component's state variables.\<close>

definition initialState :: "string \<Rightarrow> State" where
  "initialState ident =
     \<lparr> routeId = ident, originalWorkout = None, workout = None, loading = True,
       tempWorkoutName = [], tempStartDateTime = [], tempEndDateTime = [],
       tempIntensity = 3, tempWorkoutNotes = [], isSaving = False,
       exerciseMenuOpen = None, setMenuOpen = None, editingSet = None,
       showEditSetDialog = False, showAddSetDialog = False, addingSetToExercise = None,
       showExerciseSelectionModal = False, exerciseSelectionMode = ModeAdd,
       replacingExerciseId = None, pendingChanges = emptyPendingChanges,
       tempSetIdCounter = 1, isRestoring = False, alerts = [], navigations = [],
       requests = [], sessionStorage = [], timers = [] \<rparr>"

definition sampleSet :: "int \<Rightarrow> int \<Rightarrow> int \<Rightarrow> WorkoutSet" where
  "sampleSet setId exerciseId n =
     \<lparr> ws_id = Num setId, ws_workout_exercise_id = Num exerciseId, ws_set_number = n,
       ws_weight_lbs = Some 100, ws_reps = Some 8, ws_duration_seconds = None,
       ws_distance_miles = None, ws_notes = None, ws_completed_at = Some ''2024-01-01'' \<rparr>"

definition sampleExercise :: "int \<Rightarrow> WorkoutSet list \<Rightarrow> WorkoutExercise" where
  "sampleExercise exerciseId sets =
     \<lparr> we_id = Num exerciseId, we_workout_id = 1, we_exercise_id = 40, we_order_index = 0,
       we_name = ''Squat'', we_category = ''Strength'', we_muscle_group = ''Legs'',
       we_equipment = ''Barbell'', we_video_url = None, we_sets = sets \<rparr>"

definition sampleWorkout :: "WorkoutExercise list \<Rightarrow> WorkoutSummary" where
  "sampleWorkout exercises =
     \<lparr> wk_id = 1, wk_name = Some ''Leg day'', wk_notes = None, wk_started_at = ''2024-01-01T10:00'',
       wk_completed_at = ''2024-01-01T11:00'', wk_duration_minutes = 60,
       wk_intensity_level = Some 3, wk_exercises = exercises \<rparr>"

text \<open>Workout 1 with exercise instance 3, which has set 5 (number 1) and set 6 (number 2).\<close>

definition sampleData :: WorkoutSummary where
  "sampleData = sampleWorkout [sampleExercise 3 [sampleSet 5 3 1, sampleSet 6 3 2]]"

definition sampleState :: State where
  "sampleState =
     (initialState ''1'')\<lparr>originalWorkout := Some sampleData, workout := Some sampleData,
                          loading := False\<rparr>"

definition sampleForm :: SetForm where
  "sampleForm = \<lparr> sf_weightInLbs = Some 120, sf_reps = Some 10, sf_notes = None \<rparr>"

text \<open>The sample state after set 5 was marked for deletion.\<close>

definition stateSet5Deleted :: State where
  "stateSet5Deleted = handleDeleteSet True (Num 5) sampleState"

text \<open>The sample state with a pending edit of set 5.\<close>

definition stateSet5Edited :: State where
  "stateSet5Edited = handleUpdateSet sampleForm (handleEditSet (sampleSet 5 3 1) sampleState)"

definition replaceEntry :: "jsnum \<Rightarrow> int \<Rightarrow> string \<Rightarrow> PendingExerciseChange" where
  "replaceEntry exerciseId newExerciseId newExerciseName =
     \<lparr> pec_id = exerciseId, pec_type = ExReplace, pec_newExerciseId = Some newExerciseId,
       pec_newExerciseName = Some newExerciseName \<rparr>"

text \<open>\<^verbatim>\<open>{ ...prev.workout }\<close>: the pending header patch, or no key at all.\<close>

definition pendingHeader :: "PendingChanges \<Rightarrow> HeaderPatch" where
  "pendingHeader pc = (case pc_workout pc of Some p \<Rightarrow> p | None \<Rightarrow> emptyHeaderPatch)"

definition exerciseDeleteEntry :: "jsnum \<Rightarrow> PendingExerciseChange" where
  "exerciseDeleteEntry exerciseId =
     \<lparr> pec_id = exerciseId, pec_type = ExDelete, pec_newExerciseId = None,
       pec_newExerciseName = None \<rparr>"

definition addSetRefusal :: string where
  "addSetRefusal = ''Please save all changes first before adding sets to new exercises.''"

text \<open>A remote store that answers every request with the details of exercise 41.\<close>

definition sampleDetails :: ExerciseDetails where
  "sampleDetails =
     \<lparr> ed_id = 41, ed_name = ''Lunge'', ed_category = ''Strength'', ed_muscle_group = ''Legs'',
       ed_equipment = ''None'', ed_video_url = None \<rparr>"

definition sampleRemote :: Remote where
  "sampleRemote i = Ok (ExerciseBody sampleDetails)"

text \<open>
  The sample state after exercise 41 was added at time 7: a pending new exercise with
  temporary id \<open>''7''\<close>, displayed with id \<open>-7\<close>.
\<close>

definition stateNewExercise :: State where
  "stateNewExercise = handleAddSelectedExercises sampleRemote 7 [41] (handleAddExercise sampleState)"

text \<open>Then the user replaces the displayed exercise \<open>-7\<close>, and then deletes it.\<close>

definition stateNewExerciseReplaced :: State where
  "stateNewExerciseReplaced =
     handleAddSelectedExercises sampleRemote 8 [41] (handleReplaceExercise (Num (- 7)) stateNewExercise)"

definition stateNewExerciseDeleted :: State where
  "stateNewExerciseDeleted = handleDeleteExercise True (Num (- 7)) stateNewExerciseReplaced"

text \<open>
  The sample state after exercise instance 3 was marked for deletion and the user then
  chose to replace it.
\<close>

definition stateReplacingDeleted3 :: State where
  "stateReplacingDeleted3 =
     handleReplaceExercise (Num 3) (handleDeleteExercise True (Num 3) sampleState)"

subsection \<open>Decimal digits\<close>

definition plainDigit :: "char \<Rightarrow> bool" where
  "plainDigit c = (48 \<le> (of_char c :: nat) \<and> (of_char c :: nat) \<le> 57)"

subsection \<open>A stale ledger\<close>

text \<open>
  Workout 1 as it was before: instance 3 with sets 5 and 6, and instance 77 with set 99.
  The user deletes sets 5 and 99, adds a set to each instance, replaces instance 77 and
  adds exercise 41. Meanwhile instance 77 disappears from the store: the fresh data is
  \<open>sampleData\<close>.
\<close>

definition olderData :: WorkoutSummary where
  "olderData =
     sampleWorkout [sampleExercise 3 [sampleSet 5 3 1, sampleSet 6 3 2],
                    sampleExercise 77 [sampleSet 99 77 1]]"

definition staleState :: State where
  "staleState =
     handleAddSelectedExercises sampleRemote 7 [41]
       (handleAddExercise
         (handleAddSelectedExercises sampleRemote 6 [41]
           (handleReplaceExercise (Num 77)
             (handleSaveNewSet sampleForm ''2024-01-02''
               (handleAddSet (Num 77)
                 (handleSaveNewSet sampleForm ''2024-01-02''
                   (handleAddSet (Num 3)
                     (handleDeleteSet True (Num 99)
                       (handleDeleteSet True (Num 5)
                         ((initialState ''1'')\<lparr>originalWorkout := Some olderData,
                                               workout := Some olderData,
                                               loading := False\<rparr>))))))))))"

definition freshRemote :: Remote where
  "freshRemote i = Ok (WorkoutBody sampleData)"

definition noBlob :: "string \<Rightarrow> Preservation option" where
  "noBlob s = None"

subsection \<open>The order of the save, written as a plan\<close>

text \<open>
  The stages of the design: the header patch, then the set edits and deletes, then the
  new sets, then the new exercises, then the exercise deletes and replacements. Each
  planned request is paired with the message that names it when it fails.
\<close>

definition headerStage :: "WorkoutSummary \<Rightarrow> PendingChanges \<Rightarrow> (Request \<times> string) list" where
  "headerStage w pc =
     (case pc_workout pc of
        Some p \<Rightarrow>
          if 0 < headerKeys p
          then [(PatchWorkout (wk_id w) p, ''Failed to update workout details'')]
          else []
      | None \<Rightarrow> [])"

definition setChangeStep :: "jsnum \<times> PendingSetChange \<Rightarrow> (Request \<times> string) list" where
  "setChangeStep p =
     (case psc_type (snd p) of
        Edit \<Rightarrow> [(PutSet (fst p) (psc_setData (snd p)), ''Failed to update set '' @ toString (fst p))]
      | Delete \<Rightarrow> [(DeleteSet (fst p), ''Failed to delete set '' @ toString (fst p))]
      | Add \<Rightarrow> [])"

definition newSetStep :: "string \<times> NewSetData \<Rightarrow> (Request \<times> string) list" where
  "newSetStep p =
     [(PostSet (ns_workout_exercise_id (snd p)) (snd p),
       ''Failed to create new set for exercise '' @ toString (ns_workout_exercise_id (snd p)))]"

definition newExerciseStep ::
  "WorkoutSummary \<Rightarrow> string \<times> PendingNewExercise \<Rightarrow> (Request \<times> string) list" where
  "newExerciseStep w p =
     [(PostExercise (wk_id w) (pne_exerciseId (snd p)) 0,
       ''Failed to add exercise '' @ pne_name (snd p))]"

definition exerciseChangeStep :: "jsnum \<times> PendingExerciseChange \<Rightarrow> (Request \<times> string) list" where
  "exerciseChangeStep p =
     (case pec_type (snd p) of
        ExDelete \<Rightarrow>
          [(DeleteWorkoutExercise (fst p), ''Failed to delete exercise '' @ toString (fst p))]
      | ExReplace \<Rightarrow>
          (case pec_newExerciseId (snd p) of
             Some n \<Rightarrow>
               if n \<noteq> 0
               then [(PutReplaceExercise (fst p) n, ''Failed to replace exercise '' @ toString (fst p))]
               else []
           | None \<Rightarrow> []))"

definition commitPlan :: "WorkoutSummary \<Rightarrow> PendingChanges \<Rightarrow> (Request \<times> string) list" where
  "commitPlan w pc =
     headerStage w pc @
     concat (map setChangeStep (pc_sets pc)) @
     concat (map newSetStep (pc_newSets pc)) @
     concat (map (newExerciseStep w) (pc_newExercises pc)) @
     concat (map exerciseChangeStep (pc_exercises pc))"

definition plannedRequests :: "WorkoutSummary \<Rightarrow> PendingChanges \<Rightarrow> Request list" where
  "plannedRequests w pc = map fst (commitPlan w pc)"

fun stage :: "Request \<Rightarrow> nat" where
  "stage (PatchWorkout w p) = 1"
| "stage (PutSet i d) = 2"
| "stage (DeleteSet i) = 2"
| "stage (PostSet i d) = 3"
| "stage (PostExercise w e k) = 4"
| "stage (DeleteWorkoutExercise i) = 5"
| "stage (PutReplaceExercise i n) = 5"
| "stage (GetWorkout ident) = 6"
| "stage (GetWorkoutNoCache ident t) = 6"
| "stage (GetExercise i) = 0"

text \<open>Issuing a plan in order, stopping at the first request that fails.\<close>

fun runPlan :: "Remote \<Rightarrow> (Request \<times> string) list \<Rightarrow> Step" where
  "runPlan remote [] st = (None, st)"
| "runPlan remote (p # rest) st =
     (case expectOk remote (fst p) (snd p) st of
        (None, st') \<Rightarrow> runPlan remote rest st'
      | (Some t, st') \<Rightarrow> (Some t, st'))"

fun isOk :: "Response \<Rightarrow> bool" where
  "isOk (Ok b) = True"
| "isOk NotOk = False"
| "isOk (Rejected t) = False"

text \<open>What the \<^verbatim>\<open>catch\<close> block receives when the planned request \<open>p\<close> gets response \<open>r\<close>.\<close>

fun thrownBy :: "Request \<times> string \<Rightarrow> Response \<Rightarrow> Thrown" where
  "thrownBy p (Rejected t) = t"
| "thrownBy p r = Some (snd p)"

text \<open>The callback of the timer that the restore routine sets: it removes the stored blob.\<close>

definition fireTimer :: "nat \<times> string \<Rightarrow> State \<Rightarrow> State" where
  "fireTimer t st = st\<lparr>sessionStorage := mapDelete (snd t) (sessionStorage st)\<rparr>"

subsection \<open>Sample saves\<close>

text \<open>The stale state with a new title typed in and saved to the ledger.\<close>

definition busyState :: State where
  "busyState = handleSaveTitle (staleState\<lparr>tempWorkoutName := ''Legs''\<rparr>)"

text \<open>The workout that the busy state displays.\<close>

definition renamedData :: WorkoutSummary where
  "renamedData = olderData\<lparr>wk_name := Some ''Legs''\<rparr>"

text \<open>A remote store that refuses the request number \<open>k\<close> and accepts all others.\<close>

definition failAt :: "nat \<Rightarrow> Remote" where
  "failAt k i = (if i = k then NotOk else Ok (WorkoutBody sampleData))"

text \<open>A remote store that is not reachable: every call rejects.\<close>

definition unreachable :: Remote where
  "unreachable i = Rejected (Some ''Failed to fetch'')"

text \<open>The busy state with a hand-off blob for workout 1 in the session storage.\<close>

definition blobState :: State where
  "blobState = busyState\<lparr>sessionStorage := [(preservationKey ''1'', ''{}'')]\<rparr>"

definition sampleBlob :: Preservation where
  "sampleBlob =
     \<lparr> pv_timestamp = 0, pv_workout = None, pv_sets = [], pv_exercises = [], pv_newSets = [],
       pv_newExercises = [], pv_tempSetIdCounter = Some 3 \<rparr>"

definition parseSample :: "string \<Rightarrow> Preservation option" where
  "parseSample s = Some sampleBlob"

subsection \<open>The entry that adding a set records\<close>

definition recordedNewSet :: "SetForm \<Rightarrow> string \<Rightarrow> jsnum \<Rightarrow> int \<Rightarrow> NewSetData" where
  "recordedNewSet form now adding n =
     \<lparr> ns_workout_exercise_id = adding, ns_set_number = n,
       ns_weight_lbs = sf_weightInLbs form, ns_reps = sf_reps form,
       ns_duration_seconds = None, ns_distance_miles = None, ns_notes = sf_notes form,
       ns_completed_at = Some now \<rparr>"

text \<open>The numbers that the ledger and the fetched data hold for the sets of an exercise.\<close>

definition storedNumbers :: "PendingChanges \<Rightarrow> WorkoutExercise \<Rightarrow> int list" where
  "storedNumbers pc exercise =
     map ws_set_number (filter (notPendingDelete pc) (we_sets exercise)) @
     map (\<lambda>p. ns_set_number (snd p))
       (filter (\<lambda>p. startsWith (fst p) (toString (we_id exercise) @ ''-'')) (pc_newSets pc))"

text \<open>The sample state with set 5 deleted and the add-set dialog open for instance 3.\<close>

definition stateAddingTo3 :: State where
  "stateAddingTo3 = handleAddSet (Num 3) stateSet5Deleted"

definition sampleExercise3 :: WorkoutExercise where
  "sampleExercise3 = sampleExercise 3 [sampleSet 5 3 1, sampleSet 6 3 2]"

text \<open>
  What the page shows: for every displayed exercise the numbers of its displayed sets
  (the exercise cards map \<^verbatim>\<open>getDisplaySets\<close> over \<^verbatim>\<open>getDisplayExercises()\<close>).
\<close>

definition displayedNumbers :: "State \<Rightarrow> int list list" where
  "displayedNumbers st =
     map (\<lambda>exercise. map ws_set_number (getDisplaySets (pendingChanges st) exercise))
       (getDisplayExercises st)"

text \<open>
  The sample state after set 6 (number 2) was marked for deletion, a set was added to
  instance 3, and set 6 was then edited.
\<close>

definition stateSet6Replaced :: State where
  "stateSet6Replaced =
     handleSaveNewSet sampleForm ''2024-01-02''
       (handleAddSet (Num 3) (handleDeleteSet True (Num 6) sampleState))"

definition stateSet6Back :: State where
  "stateSet6Back = handleUpdateSet sampleForm (handleEditSet (sampleSet 6 3 2) stateSet6Replaced)"

text \<open>Workout 1 where the only set of instance 3 has the number \<open>2^53\<close>, and a set added to it.\<close>

definition hugeData :: WorkoutSummary where
  "hugeData = sampleWorkout [sampleExercise 3 [sampleSet 5 3 9007199254740992]]"

definition stateHugeAdded :: State where
  "stateHugeAdded =
     handleSaveNewSet sampleForm ''2024-01-02''
       (handleAddSet (Num 3)
          ((initialState ''1'')\<lparr>originalWorkout := Some hugeData, workout := Some hugeData,
                                loading := False\<rparr>))"

text \<open>Fetched data in which two sets of instance 3 carry the number 1.\<close>

definition twinExercise :: WorkoutExercise where
  "twinExercise = sampleExercise 3 [sampleSet 5 3 1, sampleSet 6 3 1]"

text \<open>
  A page that opens on a stored blob which holds the new set \<open>''3-1''\<close> (number 3) and
  no counter, so that the counter stays 1; then the add-set dialog is opened for
  instance 3.
\<close>

definition savedLedger :: PendingChanges where
  "savedLedger =
     emptyPendingChanges\<lparr>pc_newSets :=
       [(''3-1'', recordedNewSet sampleForm ''2024-01-01'' (Num 3) 3)]\<rparr>"

definition blobWithoutCounter :: "string \<Rightarrow> Preservation option" where
  "blobWithoutCounter s =
     Some \<lparr> pv_timestamp = 0, pv_workout = None, pv_sets = [], pv_exercises = [],
            pv_newSets = pc_newSets savedLedger, pv_newExercises = [],
            pv_tempSetIdCounter = None \<rparr>"

definition pageOpened :: State where
  "pageOpened = (initialState ''1'')\<lparr>sessionStorage := [(preservationKey ''1'', ''{}'')]\<rparr>"

definition stateRestored :: State where
  "stateRestored = fetchWorkoutSummaryWithPendingPreservation blobWithoutCounter freshRemote 0 pageOpened"

definition stateRestoredAdding :: State where
  "stateRestoredAdding = handleAddSet (Num 3) stateRestored"

subsection \<open>The projections over a store of arrays\<close>

text \<open>
  The host's arrays are mutable and shared by reference, and \<^verbatim>\<open>getDisplaySets\<close>
  calls \<^verbatim>\<open>push\<close> and \<^verbatim>\<open>sort\<close>, which write to the array they are called on.
  Here the two projections are embedded a second time over an explicit store: an array is
  an address, the store maps addresses to contents, and addresses below \<open>nextAddr\<close>
  are in use. Set and exercise objects stay values: the projections build new objects
  with the spread syntax and assign to no field. The ledger is read through
  \<^verbatim>\<open>get\<close>, \<^verbatim>\<open>entries\<close> and \<^verbatim>\<open>values\<close> only and stays a value as well.
\<close>

record Heap =
  setCells :: "nat \<Rightarrow> WorkoutSet list"
  exCells :: "nat \<Rightarrow> WorkoutExercise list"
  nextAddr :: nat

text \<open>
  A new array of sets: \<^verbatim>\<open>[...xs]\<close>, and the results of \<^verbatim>\<open>map\<close> and
  \<^verbatim>\<open>filter\<close>.
\<close>

definition allocSets :: "WorkoutSet list \<Rightarrow> Heap \<Rightarrow> nat \<times> Heap" where
  "allocSets xs h =
     (nextAddr h, h\<lparr>setCells := (setCells h)(nextAddr h := xs), nextAddr := Suc (nextAddr h)\<rparr>)"

definition allocExercises :: "WorkoutExercise list \<Rightarrow> Heap \<Rightarrow> nat \<times> Heap" where
  "allocExercises xs h =
     (nextAddr h, h\<lparr>exCells := (exCells h)(nextAddr h := xs), nextAddr := Suc (nextAddr h)\<rparr>)"

text \<open>\<^verbatim>\<open>a.push(...items)\<close> writes to \<open>a\<close>.\<close>

definition pushSets :: "nat \<Rightarrow> WorkoutSet list \<Rightarrow> Heap \<Rightarrow> Heap" where
  "pushSets a items h = h\<lparr>setCells := (setCells h)(a := setCells h a @ items)\<rparr>"

text \<open>
  \<^verbatim>\<open>a.sort((x, y) => x.set_number - y.set_number)\<close> sorts \<open>a\<close> in place and
  returns \<open>a\<close>.
\<close>

definition sortSets :: "nat \<Rightarrow> Heap \<Rightarrow> nat \<times> Heap" where
  "sortSets a h = (a, h\<lparr>setCells := (setCells h)(a := sort_key ws_set_number (setCells h a))\<rparr>)"

text \<open>
  \<^verbatim>\<open>getDisplaySets(exercise)\<close>, where \<^verbatim>\<open>exercise.sets\<close> is the array at
  \<open>setsRef\<close>. The arrays of Map entries that \<^verbatim>\<open>Array.from\<close> and the following
  \<^verbatim>\<open>filter\<close> build hold no sets; only the array that the final \<^verbatim>\<open>map\<close> returns
  is allocated here.
\<close>

definition getDisplaySetsH :: "PendingChanges \<Rightarrow> WorkoutExercise \<Rightarrow> nat \<Rightarrow> Heap \<Rightarrow> nat \<times> Heap" where
  "getDisplaySetsH pc exercise setsRef h =
     (case allocSets (setCells h setsRef) h of
        (copied, h1) \<Rightarrow>
          (case allocSets (map (applyPendingEdit pc) (setCells h1 copied)) h1 of
             (mapped, h2) \<Rightarrow>
               (case allocSets (filter (notPendingDelete pc) (setCells h2 mapped)) h2 of
                  (sets, h3) \<Rightarrow>
                    (case allocSets (newSetsForExercise pc exercise) h3 of
                       (newSets, h4) \<Rightarrow>
                         sortSets sets (pushSets sets (setCells h4 newSets) h4)))))"

text \<open>
  \<^verbatim>\<open>getDisplayExercises()\<close>, where \<^verbatim>\<open>workout.exercises\<close> is the array at
  \<open>exercisesRef\<close>.
\<close>

definition getDisplayExercisesH :: "State \<Rightarrow> nat \<Rightarrow> Heap \<Rightarrow> nat \<times> Heap" where
  "getDisplayExercisesH st exercisesRef h =
     (case workout st of
        None \<Rightarrow> allocExercises [] h
      | Some w \<Rightarrow>
          (let pc = pendingChanges st
           in case allocExercises (map (applyPendingReplace pc) (exCells h exercisesRef)) h of
                (mapped, h1) \<Rightarrow>
                  (case allocExercises
                          (filter (exerciseNotPendingDelete pc) (exCells h1 mapped)) h1 of
                     (existingExercises, h2) \<Rightarrow>
                       (let values = map snd (pc_newExercises pc)
                        in case allocExercises
                                  (map (newExerciseRow w (length (exCells h2 existingExercises)))
                                     (zip [0 ..< length values] values)) h2 of
                             (newExercises, h3) \<Rightarrow>
                               allocExercises
                                 (exCells h3 existingExercises @ exCells h3 newExercises) h3))))"

text \<open>
  A store with the sets of the sample exercise at address 0 and the exercises of the
  sample workout at address 1.
\<close>

definition sampleHeap :: Heap where
  "sampleHeap =
     \<lparr> setCells = (\<lambda>a. [])(0 := we_sets sampleExercise3),
       exCells = (\<lambda>a. [])(1 := wk_exercises sampleData),
       nextAddr = 2 \<rparr>"

section \<open>Facts about the Map model\<close>

lemma mapSet_keys: "fst ` set (mapSet k v m) = insert k (fst ` set m)"
  by (induction m) auto

lemma mapSet_distinct: "distinct (map fst m) \<Longrightarrow> distinct (map fst (mapSet k v m))"
  by (induction m) (auto simp: mapSet_keys)

lemma mapSet_fresh: "k \<notin> set (map fst m) \<Longrightarrow> mapSet k v m = m @ [(k, v)]"
  by (induction m) auto

lemma mapGet_mapSet: "mapGet (mapSet k v m) k' = (if k' = k then Some v else mapGet m k')"
  by (induction m) (auto simp: mapGet_def)

lemma filter_key_absent: "k \<notin> fst ` set m \<Longrightarrow> filter (\<lambda>p. fst p = k) m = []"
  by (induction m) auto

lemma mapSet_entries:
  "distinct (map fst m) \<Longrightarrow> entriesFor k (mapSet k v m) = [(k, v)]"
proof (induction m)
  case Nil
  then show ?case by (simp add: entriesFor_def)
next
  case (Cons p m)
  have "fst p = k \<Longrightarrow> k \<notin> fst ` set m" using Cons.prems by auto
  then have "fst p = k \<Longrightarrow> filter (\<lambda>p. fst p = k) m = []"
    by (simp add: filter_key_absent)
  with Cons show ?case by (auto simp: entriesFor_def)
qed

lemma mapSet_other_entries:
  "k' \<noteq> k \<Longrightarrow> entriesFor k' (mapSet k v m) = entriesFor k' m"
  by (induction m) (auto simp: entriesFor_def)

lemma foldl_mapSet_distinct:
  "distinct (map fst acc) \<Longrightarrow> distinct (map fst (foldl (\<lambda>m p. mapSet (fst p) (snd p) m) acc l))"
  by (induction l arbitrary: acc) (auto simp: mapSet_distinct)

lemma newMap_distinct: "distinct (map fst (newMap l))"
  by (simp add: newMap_def foldl_mapSet_distinct)

lemma foldl_mapSet_append:
  "distinct (map fst (acc @ l)) \<Longrightarrow> foldl (\<lambda>m p. mapSet (fst p) (snd p) m) acc l = acc @ l"
proof (induction l arbitrary: acc)
  case Nil
  then show ?case by simp
next
  case (Cons p l)
  have fresh: "fst p \<notin> set (map fst acc)" using Cons.prems by auto
  have "mapSet (fst p) (snd p) acc = acc @ [p]" using mapSet_fresh [OF fresh] by simp
  moreover have "distinct (map fst ((acc @ [p]) @ l))" using Cons.prems by simp
  ultimately show ?case using Cons.IH [of "acc @ [p]"] by simp
qed

lemma newMap_id: "distinct (map fst m) \<Longrightarrow> newMap m = m"
  using foldl_mapSet_append [of "[]" m] by (simp add: newMap_def)

lemma mapDelete_distinct: "distinct (map fst m) \<Longrightarrow> distinct (map fst (mapDelete k m))"
  by (simp add: mapDelete_def distinct_map_filter)

lemma mapDelete_keys: "fst ` set (mapDelete k m) = fst ` set m - {k}"
  by (auto simp: mapDelete_def)

lemma keepValid_fold:
  "distinct (map fst (acc @ m)) \<Longrightarrow>
   foldl (\<lambda>out p. if valid (fst p) then mapSet (fst p) (snd p) out else out) acc m
     = acc @ filter (\<lambda>p. valid (fst p)) m"
proof (induction m arbitrary: acc)
  case Nil
  then show ?case by simp
next
  case (Cons p m)
  have fresh: "fst p \<notin> set (map fst acc)" using Cons.prems by auto
  show ?case
  proof (cases "valid (fst p)")
    case True
    have "mapSet (fst p) (snd p) acc = acc @ [p]" using mapSet_fresh [OF fresh] by simp
    moreover have "distinct (map fst ((acc @ [p]) @ m))" using Cons.prems by simp
    ultimately show ?thesis using Cons.IH [of "acc @ [p]"] True by simp
  next
    case False
    have "distinct (map fst (acc @ m))" using Cons.prems by simp
    then show ?thesis using Cons.IH [of acc] False by simp
  qed
qed

lemma keepValid_filter:
  "distinct (map fst m) \<Longrightarrow> keepValid valid m = filter (\<lambda>p. valid (fst p)) m"
  using keepValid_fold [of "[]" m valid] by (simp add: keepValid_def)

section \<open>The recording handlers keep every key once\<close>

lemma fetch_pending [simp]: "pendingChanges (snd (fetch remote r st)) = pendingChanges st"
  by (simp add: fetch_def)

lemma fetchExercise_pending [simp]:
  "pendingChanges (snd (fetchExercise remote i st)) = pendingChanges st"
  by (simp add: fetchExercise_def fetch_def split: Response.splits Body.splits)

lemma fetchExercises_pending [simp]:
  "pendingChanges (snd (fetchExercises remote ids st)) = pendingChanges st"
proof (induction ids arbitrary: st)
  case Nil
  then show ?case by simp
next
  case (Cons i ids)
  obtain d st' where a: "fetchExercise remote i st = (d, st')" by (cases "fetchExercise remote i st")
  obtain ds st'' where b: "fetchExercises remote ids st' = (ds, st'')"
    by (cases "fetchExercises remote ids st'")
  have "pendingChanges st' = pendingChanges st" using fetchExercise_pending [of remote i st] a by simp
  moreover have "pendingChanges st'' = pendingChanges st'" using Cons.IH [of st'] b by simp
  ultimately show ?case using a b by simp
qed

lemma inv_handleUpdateSet:
  "ledgerInv (pendingChanges st) \<Longrightarrow> ledgerInv (pendingChanges (handleUpdateSet form st))"
  by (auto simp: handleUpdateSet_def ledgerInv_def Let_def mapSet_distinct newMap_distinct
      split: option.splits)

lemma inv_handleDeleteSet:
  "ledgerInv (pendingChanges st) \<Longrightarrow> ledgerInv (pendingChanges (handleDeleteSet c k st))"
  by (auto simp: handleDeleteSet_def ledgerInv_def Let_def mapSet_distinct newMap_distinct)

lemma inv_handleDeleteExercise:
  "ledgerInv (pendingChanges st) \<Longrightarrow> ledgerInv (pendingChanges (handleDeleteExercise c k st))"
  by (auto simp: handleDeleteExercise_def ledgerInv_def Let_def mapSet_distinct newMap_distinct
      mapDelete_distinct)

lemma inv_handleAddSelectedExercises:
  assumes "ledgerInv (pendingChanges st)"
  shows "ledgerInv (pendingChanges (handleAddSelectedExercises remote now ids st))"
proof -
  obtain d st1 where a: "fetchExercise remote (hd ids) st = (d, st1)"
    by (cases "fetchExercise remote (hd ids) st")
  have a': "pendingChanges st1 = pendingChanges st"
    using fetchExercise_pending [of remote "hd ids" st] a by simp
  obtain ds st2 where b: "fetchExercises remote ids st = (ds, st2)"
    by (cases "fetchExercises remote ids st")
  have b': "pendingChanges st2 = pendingChanges st"
    using fetchExercises_pending [of remote ids st] b by simp
  show ?thesis
    using assms a a' b b'
    by (auto simp: handleAddSelectedExercises_def ledgerInv_def Let_def alert_def
        mapSet_distinct newMap_distinct split: option.splits list.splits)
qed

lemma inv_handleSaveNewSet:
  "ledgerInv (pendingChanges st) \<Longrightarrow> ledgerInv (pendingChanges (handleSaveNewSet form now st))"
  by (auto simp: handleSaveNewSet_def ledgerInv_def Let_def mapSet_distinct newMap_distinct
      split: option.splits)

lemma inv_handleSaveTitle:
  "ledgerInv (pendingChanges st) \<Longrightarrow> ledgerInv (pendingChanges (handleSaveTitle st))"
  by (auto simp: handleSaveTitle_def ledgerInv_def Let_def)

lemma inv_handleSaveIntensity:
  "ledgerInv (pendingChanges st) \<Longrightarrow> ledgerInv (pendingChanges (handleSaveIntensity st))"
  by (auto simp: handleSaveIntensity_def ledgerInv_def Let_def)

lemma inv_handleSaveNotes:
  "ledgerInv (pendingChanges st) \<Longrightarrow> ledgerInv (pendingChanges (handleSaveNotes st))"
  by (auto simp: handleSaveNotes_def ledgerInv_def Let_def)

lemma inv_handleSaveDuration:
  "ledgerInv (pendingChanges st) \<Longrightarrow>
   ledgerInv (pendingChanges (handleSaveDuration dateMs toISOString st))"
  by (auto simp: handleSaveDuration_def ledgerInv_def Let_def alert_def split: option.splits)

lemma inv_recordAction:
  "ledgerInv (pendingChanges st) \<Longrightarrow> ledgerInv (pendingChanges (recordAction a st))"
  by (cases a)
    (simp_all add: inv_handleUpdateSet inv_handleDeleteSet inv_handleDeleteExercise
      inv_handleAddSelectedExercises inv_handleSaveNewSet inv_handleSaveTitle
      inv_handleSaveIntensity inv_handleSaveNotes inv_handleSaveDuration)

lemma entries_handleDeleteSet:
  "workout st \<noteq> None \<Longrightarrow>
   entriesFor setId (pc_sets (pendingChanges (handleDeleteSet True setId st)))
     = [(setId, deleteEntry setId)]"
  by (auto simp: handleDeleteSet_def Let_def mapSet_entries newMap_distinct deleteEntry_def)

lemma entries_handleUpdateSet:
  "editingSet st = Some es \<Longrightarrow>
   entriesFor (ws_id es) (pc_sets (pendingChanges (handleUpdateSet form st)))
     = [(ws_id es, editEntry es form)]"
  by (auto simp: handleUpdateSet_def Let_def mapSet_entries newMap_distinct editEntry_def)

lemma entries_handleDeleteExercise:
  "workout st \<noteq> None \<Longrightarrow> \<not> ltZero exerciseId \<Longrightarrow>
   entriesFor exerciseId (pc_exercises (pendingChanges (handleDeleteExercise True exerciseId st)))
     = [(exerciseId, exerciseDeleteEntry exerciseId)]"
  by (auto simp: handleDeleteExercise_def Let_def mapSet_entries newMap_distinct
      exerciseDeleteEntry_def)

section \<open>Printing and parsing identifiers\<close>

lemma of_char_digitChar: "d < 10 \<Longrightarrow> (of_char (digitChar d) :: nat) = 48 + d"
  by (simp add: digitChar_def)

lemma digitOf_digitChar: "d < 10 \<Longrightarrow> digitOf 10 (digitChar d) = Some d"
  by (simp add: digitOf_def of_char_digitChar Let_def)

lemma plainDigit_digitChar: "d < 10 \<Longrightarrow> plainDigit (digitChar d)"
  by (simp add: plainDigit_def of_char_digitChar)

lemma showNat_digits: "\<forall>c \<in> set (showNat n). plainDigit c"
proof (induction n rule: showNat.induct)
  case (1 n)
  show ?case
  proof (cases "n < 10")
    case True
    then show ?thesis by (subst showNat.simps) (simp add: plainDigit_digitChar)
  next
    case False
    then show ?thesis using 1 by (subst showNat.simps) (simp add: plainDigit_digitChar)
  qed
qed

lemma showNat_nonempty: "showNat n \<noteq> []"
  by (subst showNat.simps) simp

lemma plainDigit_digitOf: "plainDigit c \<Longrightarrow> digitOf 10 c \<noteq> None"
  by (auto simp: plainDigit_def digitOf_def Let_def)

lemma plainDigit_not_special:
  "plainDigit c \<Longrightarrow> c \<noteq> CHR ''-'' \<and> c \<noteq> CHR ''+'' \<and> \<not> isWhiteSpace c \<and> c \<noteq> CHR ''x'' \<and> c \<noteq> CHR ''X''"
  by (auto simp: plainDigit_def isWhiteSpace_def)

lemma digitsValue_snoc:
  "digitsValue r (ds @ [c]) = digitsValue r ds * r + (case digitOf r c of Some d \<Rightarrow> d | None \<Rightarrow> 0)"
  by (simp add: digitsValue_def)

lemma digitsValue_showNat: "digitsValue 10 (showNat n) = n"
proof (induction n rule: showNat.induct)
  case (1 n)
  show ?case
  proof (cases "n < 10")
    case True
    then show ?thesis
      by (subst showNat.simps) (simp add: digitsValue_def digitOf_digitChar)
  next
    case False
    then have "digitsValue 10 (showNat (n div 10)) = n div 10" using 1 by simp
    then show ?thesis using False
      by (subst showNat.simps) (simp add: digitsValue_snoc digitOf_digitChar)
  qed
qed

lemma parseInt_digits:
  assumes "ds \<noteq> []" and "\<forall>c \<in> set ds. plainDigit c"
  shows "parseInt ds = Num (int (digitsValue 10 ds))"
proof -
  obtain c r where ds: "ds = c # r" using assms(1) by (cases ds) auto
  have c: "plainDigit c" using assms(2) ds by simp
  have s1: "dropWhile isWhiteSpace ds = ds" using ds c plainDigit_not_special by simp
  have nohex: "take 2 ds \<noteq> ''0x'' \<and> take 2 ds \<noteq> ''0X''"
  proof (cases r)
    case Nil
    then show ?thesis using ds by simp
  next
    case (Cons c2 r2)
    then have "plainDigit c2" using assms(2) ds by simp
    then show ?thesis using ds Cons plainDigit_not_special by auto
  qed
  have tw: "takeWhile (\<lambda>c. digitOf 10 c \<noteq> None) ds = ds"
    using assms(2) plainDigit_digitOf by (simp add: takeWhile_eq_all_conv)
  have neg: "(case ds of c # x \<Rightarrow> c = CHR ''-'' | [] \<Rightarrow> False) = False"
    using ds plainDigit_not_special [OF c] by simp
  have s2: "(case ds of c # r \<Rightarrow> if c = CHR ''-'' \<or> c = CHR ''+'' then r else ds | [] \<Rightarrow> ds) = ds"
    using ds plainDigit_not_special [OF c] by simp
  have hex: "(take 2 ds = ''0x'' \<or> take 2 ds = ''0X'') = False"
    using nohex by simp
  show ?thesis
    unfolding parseInt_def Let_def s1 neg s2 hex if_False tw
    using assms(1) by simp
qed

lemma parseInt_showNat: "parseInt (showNat n) = Num (int n)"
  using parseInt_digits [OF showNat_nonempty showNat_digits, of n]
  by (simp add: digitsValue_showNat)

lemma split_first: "c \<notin> set xs \<Longrightarrow> split c (xs @ c # ys) = xs # split c ys"
  by (induction xs) auto

lemma showNat_no_dash: "CHR ''-'' \<notin> set (showNat n)"
  using showNat_digits [of n] plainDigit_not_special by blast

lemma newSetOwner_newSetKey: "0 \<le> e \<Longrightarrow> newSetOwner (newSetKey (Num e) t) = Num e"
proof -
  assume e: "0 \<le> e"
  have "split CHR ''-'' (newSetKey (Num e) t) = showNat (nat e) # split CHR ''-'' (toString (Num t))"
    using e split_first [OF showNat_no_dash, of "nat e" "toString (Num t)"]
    by (simp add: newSetKey_def)
  then show ?thesis using e by (simp add: newSetOwner_def parseIntAt_def parseInt_showNat)
qed

section \<open>The save routine follows the plan\<close>

lemma expectOk_eq:
  "expectOk remote r msg st =
     ((if isOk (remote (length (requests st))) then None
       else Some (thrownBy (r, msg) (remote (length (requests st))))),
      st\<lparr>requests := requests st @ [r]\<rparr>)"
  by (cases "remote (length (requests st))") (simp_all add: expectOk_def fetch_def)

lemma runPlan_append:
  "runPlan remote (xs @ ys) st = andThen (runPlan remote xs) (runPlan remote ys) st"
proof (induction xs arbitrary: st)
  case Nil
  then show ?case by (simp add: andThen_def)
next
  case (Cons p xs)
  obtain t st' where e: "expectOk remote (fst p) (snd p) st = (t, st')"
    by (cases "expectOk remote (fst p) (snd p) st")
  show ?case
  proof (cases t)
    case None
    then show ?thesis using e Cons.IH [of st'] by (simp add: andThen_def)
  next
    case (Some a)
    then show ?thesis using e by (simp add: andThen_def)
  qed
qed

lemma forEach_runPlan:
  assumes "\<And>x st. f x st = runPlan remote (g x) st"
  shows "forEach f xs st = runPlan remote (concat (map g xs)) st"
proof (induction xs arbitrary: st)
  case Nil
  then show ?case by simp
next
  case (Cons x xs)
  obtain t st' where e: "runPlan remote (g x) st = (t, st')"
    by (cases "runPlan remote (g x) st")
  show ?case
  proof (cases t)
    case None
    then show ?thesis using e Cons.IH [of st'] assms [of x st]
      by (simp add: runPlan_append andThen_def)
  next
    case (Some a)
    then show ?thesis using e assms [of x st]
      by (simp add: runPlan_append andThen_def)
  qed
qed

lemma runPlan_single:
  "runPlan remote [p] st = expectOk remote (fst p) (snd p) st"
  by (cases "expectOk remote (fst p) (snd p) st") (auto split: option.splits)

lemma saveWorkoutChanges_plan:
  "saveWorkoutChanges remote w pc = runPlan remote (headerStage w pc)"
  by (rule ext)
    (simp add: saveWorkoutChanges_def headerStage_def runPlan_single del: runPlan.simps(2)
      split: option.splits)

lemma saveSetChange_plan: "saveSetChange remote p = runPlan remote (setChangeStep p)"
  by (rule ext, cases p, cases "psc_type (snd p)")
    (simp_all add: saveSetChange_def setChangeStep_def runPlan_single del: runPlan.simps(2))

lemma saveNewSet_plan: "saveNewSet remote p = runPlan remote (newSetStep p)"
  by (rule ext, cases p)
    (simp add: saveNewSet_def newSetStep_def runPlan_single del: runPlan.simps(2))

lemma saveNewExercise_plan:
  "saveNewExercise remote w p = runPlan remote (newExerciseStep w p)"
  by (rule ext, cases p)
    (simp add: saveNewExercise_def newExerciseStep_def runPlan_single del: runPlan.simps(2))

lemma saveExerciseChange_plan:
  "saveExerciseChange remote p = runPlan remote (exerciseChangeStep p)"
  by (rule ext, cases p, cases "pec_type (snd p)")
    (simp_all add: saveExerciseChange_def exerciseChangeStep_def runPlan_single
      del: runPlan.simps(2) split: option.splits)

lemma runPlan_append_fun:
  "runPlan remote (xs @ ys) = andThen (runPlan remote xs) (runPlan remote ys)"
  by (rule ext) (rule runPlan_append)

lemma forEach_runPlan_fun:
  "(\<And>x. f x = runPlan remote (g x)) \<Longrightarrow> forEach f xs = runPlan remote (concat (map g xs))"
  by (rule ext) (rule forEach_runPlan, simp)

lemma saveAll_plan: "saveAll remote w pc st = runPlan remote (commitPlan w pc) st"
  unfolding saveAll_def commitPlan_def runPlan_append_fun saveWorkoutChanges_plan
    forEach_runPlan_fun [of "saveSetChange remote" remote setChangeStep, OF saveSetChange_plan]
    forEach_runPlan_fun [of "saveNewSet remote" remote newSetStep, OF saveNewSet_plan]
    forEach_runPlan_fun [of "saveNewExercise remote w" remote "newExerciseStep w",
      OF saveNewExercise_plan]
    forEach_runPlan_fun [of "saveExerciseChange remote" remote exerciseChangeStep,
      OF saveExerciseChange_plan]
  by (rule refl)

lemma runPlan_step_ok:
  "isOk (remote (length (requests st))) \<Longrightarrow>
   runPlan remote (p # plan) st = runPlan remote plan (st\<lparr>requests := requests st @ [fst p]\<rparr>)"
  by (simp add: expectOk_eq)

lemma runPlan_step_fail:
  "\<not> isOk (remote (length (requests st))) \<Longrightarrow>
   runPlan remote (p # plan) st =
     (Some (thrownBy p (remote (length (requests st)))), st\<lparr>requests := requests st @ [fst p]\<rparr>)"
  by (simp add: expectOk_eq)

lemma runPlan_fails_at:
  "i < length plan \<Longrightarrow> (\<forall>j < i. isOk (remote (length (requests st) + j))) \<Longrightarrow>
   \<not> isOk (remote (length (requests st) + i)) \<Longrightarrow>
   runPlan remote plan st =
     (Some (thrownBy (plan ! i) (remote (length (requests st) + i))),
      st\<lparr>requests := requests st @ map fst (take (Suc i) plan)\<rparr>)"
proof (induction plan arbitrary: st i)
  case Nil
  then show ?case by simp
next
  case (Cons p plan)
  let ?st' = "st\<lparr>requests := requests st @ [fst p]\<rparr>"
  show ?case
  proof (cases i)
    case 0
    then have "\<not> isOk (remote (length (requests st)))" using Cons.prems(3) by simp
    then show ?thesis using 0 by (simp add: runPlan_step_fail del: runPlan.simps)
  next
    case (Suc k)
    have ok0: "isOk (remote (length (requests st)))" using Cons.prems(2) Suc by force
    have a: "k < length plan" using Cons.prems(1) Suc by simp
    have b: "\<forall>j < k. isOk (remote (length (requests ?st') + j))"
    proof (intro allI impI)
      fix j assume "j < k"
      then have "isOk (remote (length (requests st) + Suc j))"
        using Cons.prems(2) Suc by (auto dest!: spec [where x = "Suc j"])
      then show "isOk (remote (length (requests ?st') + j))" by simp
    qed
    have c: "\<not> isOk (remote (length (requests ?st') + k))"
      using Cons.prems(3) Suc by simp
    have "runPlan remote (p # plan) st = runPlan remote plan ?st'"
      using ok0 by (rule runPlan_step_ok)
    also have "\<dots> = (Some (thrownBy (plan ! k) (remote (length (requests ?st') + k))),
        ?st'\<lparr>requests := requests ?st' @ map fst (take (Suc k) plan)\<rparr>)"
      using a b c by (rule Cons.IH)
    also have "\<dots> = (Some (thrownBy ((p # plan) ! i) (remote (length (requests st) + i))),
        st\<lparr>requests := requests st @ map fst (take (Suc i) (p # plan))\<rparr>)"
      using Suc by simp
    finally show ?thesis .
  qed
qed

lemma runPlan_all_ok:
  "(\<forall>j < length plan. isOk (remote (length (requests st) + j))) \<Longrightarrow>
   runPlan remote plan st = (None, st\<lparr>requests := requests st @ map fst plan\<rparr>)"
proof (induction plan arbitrary: st)
  case Nil
  then show ?case by simp
next
  case (Cons p plan)
  let ?st' = "st\<lparr>requests := requests st @ [fst p]\<rparr>"
  have ok0: "isOk (remote (length (requests st)))" using Cons.prems by force
  have rest: "\<forall>j < length plan. isOk (remote (length (requests ?st') + j))"
  proof (intro allI impI)
    fix j assume "j < length plan"
    then have "isOk (remote (length (requests st) + Suc j))"
      using Cons.prems by (auto dest!: spec [where x = "Suc j"])
    then show "isOk (remote (length (requests ?st') + j))" by simp
  qed
  have "runPlan remote (p # plan) st = runPlan remote plan ?st'"
    using ok0 by (rule runPlan_step_ok)
  also have "\<dots> = (None, ?st'\<lparr>requests := requests ?st' @ map fst plan\<rparr>)"
    using rest by (rule Cons.IH)
  also have "\<dots> = (None, st\<lparr>requests := requests st @ map fst (p # plan)\<rparr>)"
    by simp
  finally show ?case .
qed


lemma runPlan_prefix:
  "\<exists>k \<le> length plan.
     snd (runPlan remote plan st) = st\<lparr>requests := requests st @ map fst (take k plan)\<rparr>
     \<and> (fst (runPlan remote plan st) = None \<longrightarrow> k = length plan)"
proof (cases "\<forall>j < length plan. isOk (remote (length (requests st) + j))")
  case True
  have "runPlan remote plan st = (None, st\<lparr>requests := requests st @ map fst plan\<rparr>)"
    using True by (rule runPlan_all_ok)
  then show ?thesis by (intro exI [of _ "length plan"]) simp
next
  case False
  define i where "i = (LEAST j. \<not> isOk (remote (length (requests st) + j)))"
  obtain j0 where j0: "j0 < length plan" "\<not> isOk (remote (length (requests st) + j0))"
    using False by blast
  have bad: "\<not> isOk (remote (length (requests st) + i))"
    unfolding i_def using j0(2) by (rule LeastI)
  have "i \<le> j0" unfolding i_def using j0(2) by (rule Least_le)
  then have less: "i < length plan" using j0(1) by simp
  have good: "\<forall>j < i. isOk (remote (length (requests st) + j))"
  proof (intro allI impI)
    fix j assume "j < i"
    then show "isOk (remote (length (requests st) + j))"
      unfolding i_def using not_less_Least by blast
  qed
  have "runPlan remote plan st =
     (Some (thrownBy (plan ! i) (remote (length (requests st) + i))),
      st\<lparr>requests := requests st @ map fst (take (Suc i) plan)\<rparr>)"
    using less good bad by (rule runPlan_fails_at)
  then show ?thesis using less by (intro exI [of _ "Suc i"]) simp
qed

lemma const_stage_sorted: "(\<forall>x \<in> set xs. f x = (k::nat)) \<Longrightarrow> sorted (map f xs)"
  by (induction xs) auto

lemma stage_header: "\<forall>r \<in> set (headerStage w pc). stage (fst r) = 1"
  by (auto simp: headerStage_def split: option.splits if_splits)

lemma stage_sets: "\<forall>r \<in> set (concat (map setChangeStep xs)). stage (fst r) = 2"
  by (auto simp: setChangeStep_def split: SetChangeType.splits)

lemma stage_newSets: "\<forall>r \<in> set (concat (map newSetStep xs)). stage (fst r) = 3"
  by (auto simp: newSetStep_def)

lemma stage_newExercises: "\<forall>r \<in> set (concat (map (newExerciseStep w) xs)). stage (fst r) = 4"
  by (auto simp: newExerciseStep_def)

lemma stage_exercises: "\<forall>r \<in> set (concat (map exerciseChangeStep xs)). stage (fst r) = 5"
  by (auto simp: exerciseChangeStep_def split: ExerciseChangeType.splits option.splits if_splits)

lemma sorted_two_stages:
  fixes f :: "'a \<Rightarrow> nat"
  assumes "\<forall>x \<in> set xs. f x = a" and "\<forall>y \<in> set ys. a \<le> f y" and "sorted (map f ys)"
  shows "sorted (map f (xs @ ys))"
proof -
  have "sorted (map f xs)" using assms(1) by (rule const_stage_sorted)
  moreover have "\<forall>x \<in> set xs. \<forall>y \<in> set ys. f x \<le> f y" using assms(1,2) by simp
  ultimately show ?thesis using assms(3) by (simp add: sorted_append)
qed

lemma plan_sorted: "sorted (map stage (plannedRequests w pc))"
proof -
  define A where "A = headerStage w pc"
  define B where "B = concat (map setChangeStep (pc_sets pc))"
  define C where "C = concat (map newSetStep (pc_newSets pc))"
  define D where "D = concat (map (newExerciseStep w) (pc_newExercises pc))"
  define E where "E = concat (map exerciseChangeStep (pc_exercises pc))"
  have a: "\<forall>r \<in> set A. stage (fst r) = 1" unfolding A_def by (rule stage_header)
  have b: "\<forall>r \<in> set B. stage (fst r) = 2" unfolding B_def by (rule stage_sets)
  have c: "\<forall>r \<in> set C. stage (fst r) = 3" unfolding C_def by (rule stage_newSets)
  have d: "\<forall>r \<in> set D. stage (fst r) = 4" unfolding D_def by (rule stage_newExercises)
  have e: "\<forall>r \<in> set E. stage (fst r) = 5" unfolding E_def by (rule stage_exercises)
  have sE: "sorted (map (\<lambda>r. stage (fst r)) E)" using e by (rule const_stage_sorted)
  have e4: "\<forall>y \<in> set E. 4 \<le> stage (fst y)" using e by simp
  have sD: "sorted (map (\<lambda>r. stage (fst r)) (D @ E))"
    by (rule sorted_two_stages [OF d e4 sE])
  have d3: "\<forall>y \<in> set (D @ E). 3 \<le> stage (fst y)" using d e by auto
  have sC: "sorted (map (\<lambda>r. stage (fst r)) (C @ D @ E))"
    by (rule sorted_two_stages [OF c d3 sD])
  have c2: "\<forall>y \<in> set (C @ D @ E). 2 \<le> stage (fst y)" using c d e by auto
  have sB: "sorted (map (\<lambda>r. stage (fst r)) (B @ C @ D @ E))"
    by (rule sorted_two_stages [OF b c2 sC])
  have b1: "\<forall>y \<in> set (B @ C @ D @ E). 1 \<le> stage (fst y)" using b c d e by auto
  have sA: "sorted (map (\<lambda>r. stage (fst r)) (A @ B @ C @ D @ E))"
    by (rule sorted_two_stages [OF a b1 sB])
  have "plannedRequests w pc = map fst (A @ B @ C @ D @ E)"
    by (simp only: plannedRequests_def commitPlan_def A_def B_def C_def D_def E_def)
  then show ?thesis using sA by (simp only: map_map comp_def)
qed

lemma fetchWorkoutSummary_frame:
  "requests (fetchWorkoutSummary remote st) = requests st @ [GetWorkout (routeId st)] \<and>
   sessionStorage (fetchWorkoutSummary remote st) = sessionStorage st \<and>
   timers (fetchWorkoutSummary remote st) = timers st \<and>
   alerts (fetchWorkoutSummary remote st) = alerts st \<and>
   isSaving (fetchWorkoutSummary remote st) = isSaving st \<and>
   (pendingChanges st = emptyPendingChanges \<longrightarrow>
      pendingChanges (fetchWorkoutSummary remote st) = emptyPendingChanges)"
  by (cases "remote (length (requests st))")
    (auto simp: fetchWorkoutSummary_def fetch_def navigate_def split: Body.splits)

lemma fetchWorkoutSummary_ok:
  "remote (length (requests st)) = Ok (WorkoutBody data) \<Longrightarrow>
   workout (fetchWorkoutSummary remote st) = Some data \<and>
   originalWorkout (fetchWorkoutSummary remote st) = Some data"
  by (simp add: fetchWorkoutSummary_def fetch_def)

lemma commit_success:
  assumes "workout st = Some w" and "hasPendingChanges st"
    and "\<forall>j < length (commitPlan w (pendingChanges st)). isOk (remote (length (requests st) + j))"
  shows "handleSaveAllChanges remote st =
    (alert ''All changes saved successfully!''
      (fetchWorkoutSummary remote
        (st\<lparr>isSaving := True,
            requests := requests st @ plannedRequests w (pendingChanges st),
            pendingChanges := emptyPendingChanges\<rparr>)))\<lparr>isSaving := False\<rparr>"
proof -
  let ?st0 = "st\<lparr>isSaving := True\<rparr>"
  have "\<forall>j < length (commitPlan w (pendingChanges st)). isOk (remote (length (requests ?st0) + j))"
    using assms(3) by simp
  then have "runPlan remote (commitPlan w (pendingChanges st)) ?st0
      = (None, ?st0\<lparr>requests := requests ?st0 @ map fst (commitPlan w (pendingChanges st))\<rparr>)"
    by (rule runPlan_all_ok)
  then have "saveAll remote w (pendingChanges st) ?st0
      = (None, ?st0\<lparr>requests := requests ?st0 @ map fst (commitPlan w (pendingChanges st))\<rparr>)"
    by (simp only: saveAll_plan)
  then have sv: "saveAll remote w (pendingChanges st) ?st0
      = (None, st\<lparr>isSaving := True,
                  requests := requests st @ plannedRequests w (pendingChanges st)\<rparr>)"
    by (simp add: plannedRequests_def)
  have "handleSaveAllChanges remote st =
      (case saveAll remote w (pendingChanges st) ?st0 of
         (None, st1) \<Rightarrow>
           (alert ''All changes saved successfully!''
              (fetchWorkoutSummary remote (st1\<lparr>pendingChanges := emptyPendingChanges\<rparr>)))
           \<lparr>isSaving := False\<rparr>
       | (Some t, st1) \<Rightarrow> (alert (failureReport t) st1)\<lparr>isSaving := False\<rparr>)"
    unfolding handleSaveAllChanges_def using assms(1,2)
    by (simp only: option.case simp_thms if_False)
  then show ?thesis
    unfolding sv by (simp only: prod.case option.case)
qed

lemma commit_failure:
  assumes "workout st = Some w" and "hasPendingChanges st"
    and "i < length (commitPlan w (pendingChanges st))"
    and "\<forall>j < i. isOk (remote (length (requests st) + j))"
    and "\<not> isOk (remote (length (requests st) + i))"
  shows "handleSaveAllChanges remote st =
    (alert (failureReport (thrownBy (commitPlan w (pendingChanges st) ! i)
                             (remote (length (requests st) + i))))
      (st\<lparr>isSaving := True,
          requests := requests st @ map fst (take (Suc i) (commitPlan w (pendingChanges st)))\<rparr>))
    \<lparr>isSaving := False\<rparr>"
proof -
  let ?st0 = "st\<lparr>isSaving := True\<rparr>"
  let ?plan = "commitPlan w (pendingChanges st)"
  have a: "\<forall>j < i. isOk (remote (length (requests ?st0) + j))" using assms(4) by simp
  have b: "\<not> isOk (remote (length (requests ?st0) + i))" using assms(5) by simp
  have "runPlan remote ?plan ?st0
      = (Some (thrownBy (?plan ! i) (remote (length (requests ?st0) + i))),
         ?st0\<lparr>requests := requests ?st0 @ map fst (take (Suc i) ?plan)\<rparr>)"
    using assms(3) a b by (rule runPlan_fails_at)
  then have "saveAll remote w (pendingChanges st) ?st0
      = (Some (thrownBy (?plan ! i) (remote (length (requests ?st0) + i))),
         ?st0\<lparr>requests := requests ?st0 @ map fst (take (Suc i) ?plan)\<rparr>)"
    by (simp only: saveAll_plan)
  then show ?thesis
    using assms(1,2) by (simp add: handleSaveAllChanges_def)
qed

lemma header_only_stage_one:
  "filter (\<lambda>r. stage r = 1) (plannedRequests w pc) = map fst (headerStage w pc)"
proof -
  have f: "(\<forall>x \<in> set xs. stage (fst x) = k) \<Longrightarrow> k \<noteq> 1 \<Longrightarrow>
      filter (\<lambda>r. stage r = 1) (map fst xs) = []" for xs :: "(Request \<times> string) list" and k
    by (induction xs) auto
  have g: "(\<forall>x \<in> set xs. stage (fst x) = 1) \<Longrightarrow>
      filter (\<lambda>r. stage r = 1) (map fst xs) = map fst xs" for xs :: "(Request \<times> string) list"
    by (induction xs) auto
  show ?thesis
    unfolding plannedRequests_def commitPlan_def map_append filter_append
    using f [OF stage_sets, of "pc_sets pc"] f [OF stage_newSets, of "pc_newSets pc"]
      f [OF stage_newExercises, of w "pc_newExercises pc"]
      f [OF stage_exercises, of "pc_exercises pc"] g [OF stage_header, of w pc]
    by simp
qed

lemma commit_success_facts:
  assumes "workout st = Some w" and "hasPendingChanges st"
    and "\<forall>j < length (commitPlan w (pendingChanges st)). isOk (remote (length (requests st) + j))"
  shows "requests (handleSaveAllChanges remote st)
      = requests st @ plannedRequests w (pendingChanges st) @ [GetWorkout (routeId st)]"
    and "pendingChanges (handleSaveAllChanges remote st) = emptyPendingChanges"
    and "sessionStorage (handleSaveAllChanges remote st) = sessionStorage st"
    and "timers (handleSaveAllChanges remote st) = timers st"
    and "alerts (handleSaveAllChanges remote st) = alerts st @ [''All changes saved successfully!'']"
proof -
  define X where "X = st\<lparr>isSaving := True,
      requests := requests st @ plannedRequests w (pendingChanges st),
      pendingChanges := emptyPendingChanges\<rparr>"
  have eq: "handleSaveAllChanges remote st =
      (alert ''All changes saved successfully!'' (fetchWorkoutSummary remote X))\<lparr>isSaving := False\<rparr>"
    unfolding X_def using assms by (rule commit_success)
  have X: "requests X = requests st @ plannedRequests w (pendingChanges st)"
    "routeId X = routeId st" "pendingChanges X = emptyPendingChanges"
    "sessionStorage X = sessionStorage st" "timers X = timers st" "alerts X = alerts st"
    by (simp_all add: X_def)
  note fr = fetchWorkoutSummary_frame [of remote X]
  have "requests (handleSaveAllChanges remote st) = requests (fetchWorkoutSummary remote X)"
    unfolding eq by (simp add: alert_def)
  then show "requests (handleSaveAllChanges remote st)
      = requests st @ plannedRequests w (pendingChanges st) @ [GetWorkout (routeId st)]"
    using fr X(1,2) by simp
  have "pendingChanges (handleSaveAllChanges remote st) = pendingChanges (fetchWorkoutSummary remote X)"
    unfolding eq by (simp add: alert_def)
  then show "pendingChanges (handleSaveAllChanges remote st) = emptyPendingChanges"
    using fr X(3) by simp
  have "sessionStorage (handleSaveAllChanges remote st) = sessionStorage (fetchWorkoutSummary remote X)"
    unfolding eq by (simp add: alert_def)
  then show "sessionStorage (handleSaveAllChanges remote st) = sessionStorage st"
    using fr X(4) by simp
  have "timers (handleSaveAllChanges remote st) = timers (fetchWorkoutSummary remote X)"
    unfolding eq by (simp add: alert_def)
  then show "timers (handleSaveAllChanges remote st) = timers st"
    using fr X(5) by simp
  have "alerts (handleSaveAllChanges remote st)
      = alerts (fetchWorkoutSummary remote X) @ [''All changes saved successfully!'']"
    unfolding eq by (simp add: alert_def)
  then show "alerts (handleSaveAllChanges remote st) = alerts st @ [''All changes saved successfully!'']"
    using fr X(6) by simp
qed

lemma commit_failure_facts:
  assumes "workout st = Some w" and "hasPendingChanges st"
    and "i < length (commitPlan w (pendingChanges st))"
    and "\<forall>j < i. isOk (remote (length (requests st) + j))"
    and "\<not> isOk (remote (length (requests st) + i))"
  shows "requests (handleSaveAllChanges remote st)
      = requests st @ map fst (take (Suc i) (commitPlan w (pendingChanges st)))"
    and "pendingChanges (handleSaveAllChanges remote st) = pendingChanges st"
    and "sessionStorage (handleSaveAllChanges remote st) = sessionStorage st"
    and "workout (handleSaveAllChanges remote st) = workout st"
    and "isSaving (handleSaveAllChanges remote st) = False"
    and "alerts (handleSaveAllChanges remote st)
      = alerts st @ [failureReport (thrownBy (commitPlan w (pendingChanges st) ! i)
                                      (remote (length (requests st) + i)))]"
  unfolding commit_failure [OF assms] by (simp_all add: alert_def)

lemma commit_prefix:
  assumes "workout st = Some w" and "hasPendingChanges st"
  shows "\<exists>ys. prefix ys (plannedRequests w (pendingChanges st) @ [GetWorkout (routeId st)]) \<and>
    requests (handleSaveAllChanges remote st) = requests st @ ys"
proof (cases "\<forall>j < length (commitPlan w (pendingChanges st)).
    isOk (remote (length (requests st) + j))")
  case True
  have "requests (handleSaveAllChanges remote st)
      = requests st @ plannedRequests w (pendingChanges st) @ [GetWorkout (routeId st)]"
    using assms True by (rule commit_success_facts(1))
  then show ?thesis by (intro exI [of _ "plannedRequests w (pendingChanges st) @ [GetWorkout (routeId st)]"]) simp
next
  case False
  define i where "i = (LEAST j. \<not> isOk (remote (length (requests st) + j)))"
  obtain j0 where j0: "j0 < length (commitPlan w (pendingChanges st))"
    "\<not> isOk (remote (length (requests st) + j0))"
    using False by blast
  have bad: "\<not> isOk (remote (length (requests st) + i))"
    unfolding i_def using j0(2) by (rule LeastI)
  have "i \<le> j0" unfolding i_def using j0(2) by (rule Least_le)
  then have less: "i < length (commitPlan w (pendingChanges st))" using j0(1) by simp
  have good: "\<forall>j < i. isOk (remote (length (requests st) + j))"
  proof (intro allI impI)
    fix j assume "j < i"
    then show "isOk (remote (length (requests st) + j))"
      unfolding i_def using not_less_Least by blast
  qed
  have r: "requests (handleSaveAllChanges remote st)
      = requests st @ map fst (take (Suc i) (commitPlan w (pendingChanges st)))"
    using assms less good bad by (rule commit_failure_facts(1))
  have "prefix (take (Suc i) (commitPlan w (pendingChanges st))) (commitPlan w (pendingChanges st))"
    by (rule take_is_prefix)
  then have "prefix (map fst (take (Suc i) (commitPlan w (pendingChanges st))))
      (plannedRequests w (pendingChanges st))"
    unfolding plannedRequests_def by (rule map_mono_prefix)
  then have "prefix (map fst (take (Suc i) (commitPlan w (pendingChanges st))))
      (plannedRequests w (pendingChanges st) @ [GetWorkout (routeId st)])"
    by (rule prefix_prefix)
  then show ?thesis using r by blast
qed

lemma commit_success_refetch:
  assumes "workout st = Some w" and "hasPendingChanges st"
    and "\<forall>j < length (commitPlan w (pendingChanges st)). isOk (remote (length (requests st) + j))"
    and "remote (length (requests st) + length (commitPlan w (pendingChanges st))) = Ok (WorkoutBody data)"
  shows "workout (handleSaveAllChanges remote st) = Some data \<and>
    originalWorkout (handleSaveAllChanges remote st) = Some data"
proof -
  define X where "X = st\<lparr>isSaving := True,
      requests := requests st @ plannedRequests w (pendingChanges st),
      pendingChanges := emptyPendingChanges\<rparr>"
  have eq: "handleSaveAllChanges remote st =
      (alert ''All changes saved successfully!'' (fetchWorkoutSummary remote X))\<lparr>isSaving := False\<rparr>"
    unfolding X_def using assms(1-3) by (rule commit_success)
  have "remote (length (requests X)) = Ok (WorkoutBody data)"
    using assms(4) by (simp add: X_def plannedRequests_def)
  then have "workout (fetchWorkoutSummary remote X) = Some data \<and>
      originalWorkout (fetchWorkoutSummary remote X) = Some data"
    by (rule fetchWorkoutSummary_ok)
  then show ?thesis unfolding eq by (simp add: alert_def)
qed

lemma mapGet_mapDelete: "mapGet (mapDelete k m) k = None"
  by (induction m) (auto simp: mapGet_def mapDelete_def)

lemma restore_storage:
  assumes "loadSaved parse (st\<lparr>isRestoring := True\<rparr>) = (r, st1)"
  shows "timers (fetchWorkoutSummaryWithPendingPreservation parse remote now st) = timers st1 \<and>
    sessionStorage (fetchWorkoutSummaryWithPendingPreservation parse remote now st)
      = sessionStorage st1"
proof -
  obtain saved hw cnt where r: "r = (saved, hw, cnt)" by (cases r)
  obtain resp st2 where f: "fetch remote (GetWorkoutNoCache (routeId st1) now) st1 = (resp, st2)"
    by (cases "fetch remote (GetWorkoutNoCache (routeId st1) now) st1")
  have st2: "timers st2 = timers st1 \<and> sessionStorage st2 = sessionStorage st1"
    using f by (auto simp: fetch_def)
  show ?thesis
    using assms r f st2
    by (cases resp; cases saved)
      (auto simp: fetchWorkoutSummaryWithPendingPreservation_def Let_def navigate_def
        split: Body.splits)
qed

lemma restore_keeps_blob:
  assumes "mapGet (sessionStorage st) (preservationKey (routeId st)) = Some blob"
    and "blob \<noteq> []" and "parse blob = Some p"
  shows "timers (fetchWorkoutSummaryWithPendingPreservation parse remote now st)
      = timers st @ [(30000, preservationKey (routeId st))] \<and>
    sessionStorage (fetchWorkoutSummaryWithPendingPreservation parse remote now st)
      = sessionStorage st"
proof -
  obtain c cs where b: "blob = c # cs" using assms(2) by (cases blob) auto
  obtain r st1 where l: "loadSaved parse (st\<lparr>isRestoring := True\<rparr>) = (r, st1)"
    by (cases "loadSaved parse (st\<lparr>isRestoring := True\<rparr>)")
  have "timers st1 = timers st @ [(30000, preservationKey (routeId st))] \<and>
      sessionStorage st1 = sessionStorage st"
    using l assms(1,3) b by (auto simp: loadSaved_def Let_def)
  then show ?thesis using restore_storage [OF l, of remote now] by simp
qed

section \<open>The numbers of the displayed sets\<close>

lemma map_insort_key: "map f (insort_key f x ys) = insort (f x) (map f ys)"
  by (induction ys) auto

lemma map_sort_key: "map f (sort_key f xs) = sort (map f xs)"
  by (induction xs) (auto simp: map_insort_key)

lemma applyPendingEdit_keeps:
  "ws_set_number (applyPendingEdit pc s) = ws_set_number s \<and> ws_id (applyPendingEdit pc s) = ws_id s"
  by (auto simp: applyPendingEdit_def applySetPatch_def split: option.splits)

lemma notPendingDelete_edit:
  "notPendingDelete pc (applyPendingEdit pc s) = notPendingDelete pc s"
  by (simp add: notPendingDelete_def applyPendingEdit_keeps)

lemma numbers_of_kept:
  "map ws_set_number (filter (notPendingDelete pc) (map (applyPendingEdit pc) xs))
     = map ws_set_number (filter (notPendingDelete pc) xs)"
  by (induction xs) (auto simp: notPendingDelete_edit applyPendingEdit_keeps)

lemma numbers_of_new_list:
  "map ws_set_number
     (map (\<lambda>(key, setData). newSetWithId setData (negNum (parseIntAt (split CHR ''-'' key) 1)))
        (filter (\<lambda>(key, setData). startsWith key pre) xs))
     = map (\<lambda>p. ns_set_number (snd p)) (filter (\<lambda>p. startsWith (fst p) pre) xs)"
  by (induction xs) (auto simp: newSetWithId_def)

lemma numbers_of_new:
  "map ws_set_number (newSetsForExercise pc exercise)
     = map (\<lambda>p. ns_set_number (snd p))
         (filter (\<lambda>p. startsWith (fst p) (toString (we_id exercise) @ ''-'')) (pc_newSets pc))"
  unfolding newSetsForExercise_def by (rule numbers_of_new_list)

lemma display_numbers:
  "map ws_set_number (getDisplaySets pc exercise)
     = sort (map ws_set_number (filter (notPendingDelete pc) (we_sets exercise)) @
             map (\<lambda>p. ns_set_number (snd p))
               (filter (\<lambda>p. startsWith (fst p) (toString (we_id exercise) @ ''-''))
                  (pc_newSets pc)))"
  by (simp add: getDisplaySets_def Let_def map_sort_key numbers_of_kept numbers_of_new)

lemma display_sorted: "sorted (map ws_set_number (getDisplaySets pc exercise))"
  by (simp add: display_numbers)

lemma plusOne_safe: "isSafeInteger x \<Longrightarrow> plusOne x = x + 1"
  by (simp add: plusOne_def isSafeInteger_def)

lemma Max_numbers_safe:
  assumes "ds \<noteq> []" and "\<forall>s \<in> set ds. isSafeInteger (ws_set_number s)"
  shows "isSafeInteger (Max (set (map ws_set_number ds)))"
proof -
  have "Max (set (map ws_set_number ds)) \<in> set (map ws_set_number ds)"
    using assms(1) by (intro Max_in) auto
  then show ?thesis using assms(2) by auto
qed

lemma nextSetNumber_safe:
  assumes "\<forall>s \<in> set ds. isSafeInteger (ws_set_number s)"
  shows "nextSetNumber ds = (if ds = [] then 1 else Max (set (map ws_set_number ds)) + 1)"
  using assms Max_numbers_safe [of ds] by (simp add: nextSetNumber_def plusOne_safe)

lemma nextSetNumber_above:
  assumes "\<forall>s \<in> set ds. isSafeInteger (ws_set_number s)"
  shows "\<forall>s \<in> set ds. ws_set_number s < nextSetNumber ds"
proof
  fix s assume s: "s \<in> set ds"
  then have ne: "ds \<noteq> []" by auto
  have "ws_set_number s \<le> Max (set (map ws_set_number ds))"
    using s by (intro Max_ge) auto
  then show "ws_set_number s < nextSetNumber ds"
    using ne nextSetNumber_safe [OF assms] by simp
qed

lemma strictEq_eq: "strictEq a b \<Longrightarrow> a = b"
  by (cases a; cases b) auto

lemma startsWith_own: "startsWith (p @ s) p"
  by (simp add: startsWith_def)

lemma find_strictEq:
  "find (\<lambda>ex. strictEq (we_id ex) adding) exs = Some exercise \<Longrightarrow> we_id exercise = adding"
  by (auto simp: find_Some_iff dest: strictEq_eq)

lemma display_stored:
  "map ws_set_number (getDisplaySets pc exercise) = sort (storedNumbers pc exercise)"
  by (simp only: display_numbers storedNumbers_def)

lemma handleSaveNewSet_records:
  assumes "workout st = Some w" and "addingSetToExercise st = Some adding"
    and "truthyNum adding"
    and "find (\<lambda>ex. strictEq (we_id ex) adding) (wk_exercises w) = Some exercise"
    and "ledgerInv (pendingChanges st)"
    and "newSetKey adding (tempSetIdCounter st) \<notin> fst ` set (pc_newSets (pendingChanges st))"
  shows "pendingChanges (handleSaveNewSet form now st) =
    (pendingChanges st)\<lparr>pc_newSets := pc_newSets (pendingChanges st) @
       [(newSetKey adding (tempSetIdCounter st),
         recordedNewSet form now adding
           (nextSetNumber (getDisplaySets (pendingChanges st) exercise)))]\<rparr>"
proof -
  have d: "distinct (map fst (pc_newSets (pendingChanges st)))"
    using assms(5) by (simp add: ledgerInv_def)
  have "mapSet (newSetKey adding (tempSetIdCounter st)) v (newMap (pc_newSets (pendingChanges st)))
      = pc_newSets (pendingChanges st) @ [(newSetKey adding (tempSetIdCounter st), v)]" for v
    using assms(6) by (simp add: newMap_id [OF d] mapSet_fresh)
  then show ?thesis
    using assms(1-4) by (simp add: handleSaveNewSet_def Let_def recordedNewSet_def)
qed

lemma storedNumbers_after:
  assumes "pc_sets pc' = pc_sets pc"
    and "pc_newSets pc' = pc_newSets pc @ [(toString (we_id exercise) @ ''-'' @ rest, d)]"
  shows "storedNumbers pc' exercise = storedNumbers pc exercise @ [ns_set_number d]"
proof -
  have "notPendingDelete pc' = notPendingDelete pc"
    using assms(1) by (intro ext) (simp add: notPendingDelete_def)
  moreover have "startsWith (toString (we_id exercise) @ ''-'' @ rest) (toString (we_id exercise) @ ''-'')"
    using startsWith_own [of "toString (we_id exercise) @ ''-''" rest] by simp
  ultimately show ?thesis using assms(2) by (simp add: storedNumbers_def)
qed

section \<open>The projections over the store\<close>

lemma getDisplaySetsH_result:
  assumes "setCells h setsRef = we_sets exercise"
  shows "setCells (snd (getDisplaySetsH pc exercise setsRef h)) (fst (getDisplaySetsH pc exercise setsRef h))
      = getDisplaySets pc exercise"
    and "nextAddr h \<le> fst (getDisplaySetsH pc exercise setsRef h)"
    and "fst (getDisplaySetsH pc exercise setsRef h) < nextAddr (snd (getDisplaySetsH pc exercise setsRef h))"
  using assms
  by (simp_all add: getDisplaySetsH_def allocSets_def pushSets_def sortSets_def
      getDisplaySets_def Let_def)

lemma getDisplaySetsH_frame:
  assumes "a < nextAddr h"
  shows "setCells (snd (getDisplaySetsH pc exercise setsRef h)) a = setCells h a"
    and "exCells (snd (getDisplaySetsH pc exercise setsRef h)) a = exCells h a"
  using assms
  by (simp_all add: getDisplaySetsH_def allocSets_def pushSets_def sortSets_def Let_def)

lemma getDisplaySetsH_exCells:
  "exCells (snd (getDisplaySetsH pc exercise setsRef h)) = exCells h"
  by (simp add: getDisplaySetsH_def allocSets_def pushSets_def sortSets_def Let_def)

lemma getDisplaySetsH_grows:
  "nextAddr h \<le> nextAddr (snd (getDisplaySetsH pc exercise setsRef h))"
  by (simp add: getDisplaySetsH_def allocSets_def pushSets_def sortSets_def Let_def)

lemma getDisplayExercisesH_result:
  assumes "workout st = Some w" and "exCells h exercisesRef = wk_exercises w"
  shows "exCells (snd (getDisplayExercisesH st exercisesRef h)) (fst (getDisplayExercisesH st exercisesRef h))
      = getDisplayExercises st"
    and "nextAddr h \<le> fst (getDisplayExercisesH st exercisesRef h)"
    and "fst (getDisplayExercisesH st exercisesRef h)
      < nextAddr (snd (getDisplayExercisesH st exercisesRef h))"
  using assms
  by (simp_all add: getDisplayExercisesH_def allocExercises_def getDisplayExercises_def Let_def)

lemma getDisplayExercisesH_frame:
  assumes "a < nextAddr h"
  shows "exCells (snd (getDisplayExercisesH st exercisesRef h)) a = exCells h a"
    and "setCells (snd (getDisplayExercisesH st exercisesRef h)) a = setCells h a"
  using assms
  by (simp_all add: getDisplayExercisesH_def allocExercises_def Let_def split: option.splits)

lemma getDisplayExercisesH_grows:
  "nextAddr h \<le> nextAddr (snd (getDisplayExercisesH st exercisesRef h))"
  by (simp add: getDisplayExercisesH_def allocExercises_def Let_def split: option.splits)
subsection \<open>Every handler pins the entry it writes\<close>


lemma others_handleUpdateSet:
  "ledgerInv (pendingChanges st) \<Longrightarrow> editingSet st = Some es \<Longrightarrow> k \<noteq> ws_id es \<Longrightarrow>
   entriesFor k (pc_sets (pendingChanges (handleUpdateSet form st)))
     = entriesFor k (pc_sets (pendingChanges st))"
  by (simp add: handleUpdateSet_def Let_def ledgerInv_def newMap_id mapSet_other_entries)

lemma others_handleDeleteSet:
  "ledgerInv (pendingChanges st) \<Longrightarrow> k \<noteq> setId \<Longrightarrow>
   entriesFor k (pc_sets (pendingChanges (handleDeleteSet c setId st)))
     = entriesFor k (pc_sets (pendingChanges st))"
  by (simp add: handleDeleteSet_def Let_def ledgerInv_def newMap_id mapSet_other_entries)

lemma others_handleDeleteExercise:
  "ledgerInv (pendingChanges st) \<Longrightarrow> k \<noteq> exerciseId \<Longrightarrow>
   entriesFor k (pc_exercises (pendingChanges (handleDeleteExercise c exerciseId st)))
     = entriesFor k (pc_exercises (pendingChanges st))"
  by (simp add: handleDeleteExercise_def Let_def ledgerInv_def newMap_id mapSet_other_entries)

lemma pendingNew_handleDeleteExercise:
  "ledgerInv (pendingChanges st) \<Longrightarrow> workout st \<noteq> None \<Longrightarrow> ltZero exerciseId \<Longrightarrow>
   pc_newExercises (pendingChanges (handleDeleteExercise True exerciseId st))
     = mapDelete (toString (absNum exerciseId)) (pc_newExercises (pendingChanges st)) \<and>
   pc_exercises (pendingChanges (handleDeleteExercise True exerciseId st))
     = pc_exercises (pendingChanges st)"
  by (auto simp: handleDeleteExercise_def Let_def ledgerInv_def newMap_id)

lemma fetchExercise_ok:
  "remote (length (requests st)) = Ok (ExerciseBody d) \<Longrightarrow>
   fetchExercise remote i st = (Some d, st\<lparr>requests := requests st @ [GetExercise i]\<rparr>)"
  by (simp add: fetchExercise_def fetch_def)

lemma replace_records:
  assumes "workout st \<noteq> None" and "exerciseSelectionMode st = ModeReplace"
    and "replacingExerciseId st = Some r" and "truthyNum r"
    and "remote (length (requests st)) = Ok (ExerciseBody d)"
  shows "pendingChanges (handleAddSelectedExercises remote now [newId] st) =
    (pendingChanges st)\<lparr>pc_exercises :=
       mapSet r (replaceEntry r newId (ed_name d)) (newMap (pc_exercises (pendingChanges st)))\<rparr>"
  using assms
  by (auto simp: handleAddSelectedExercises_def fetchExercise_ok [of remote st d] Let_def
      replaceEntry_def)

lemma entries_replace:
  assumes "workout st \<noteq> None" and "exerciseSelectionMode st = ModeReplace"
    and "replacingExerciseId st = Some r" and "truthyNum r"
    and "remote (length (requests st)) = Ok (ExerciseBody d)"
  shows "entriesFor r (pc_exercises (pendingChanges (handleAddSelectedExercises remote now [newId] st)))
      = [(r, replaceEntry r newId (ed_name d))]"
  unfolding replace_records [of st r remote d, OF assms] by (simp add: mapSet_entries newMap_distinct)

lemma others_replace:
  assumes "ledgerInv (pendingChanges st)"
    and "workout st \<noteq> None" and "exerciseSelectionMode st = ModeReplace"
    and "replacingExerciseId st = Some r" and "truthyNum r"
    and "remote (length (requests st)) = Ok (ExerciseBody d)" and "k \<noteq> r"
  shows "entriesFor k (pc_exercises (pendingChanges (handleAddSelectedExercises remote now [newId] st)))
      = entriesFor k (pc_exercises (pendingChanges st))"
  unfolding replace_records [of st r remote d, OF assms(2-6)]
  using assms(1,7) by (simp add: ledgerInv_def newMap_id mapSet_other_entries)

lemma newMap_snoc: "newMap (m @ [p]) = mapSet (fst p) (snd p) (newMap m)"
  by (simp add: newMap_def)

lemma add_records:
  assumes "workout st \<noteq> None" and "exerciseSelectionMode st = ModeAdd"
    and "remote (length (requests st)) = Ok (ExerciseBody d)"
  shows "pc_newExercises (pendingChanges (handleAddSelectedExercises remote now [i] st))
      = newMap (pc_newExercises (pendingChanges st) @ [newExerciseEntry now 0 d])"
  using assms
  by (auto simp: handleAddSelectedExercises_def fetchExercise_ok [of remote st d] Let_def)

lemma header_handleSaveTitle:
  "pc_workout (pendingChanges (handleSaveTitle st))
     = Some ((pendingHeader (pendingChanges st))\<lparr>hp_name := Some (tempWorkoutName st)\<rparr>)"
  by (simp add: handleSaveTitle_def Let_def pendingHeader_def)

lemma header_handleSaveIntensity:
  "pc_workout (pendingChanges (handleSaveIntensity st))
     = Some ((pendingHeader (pendingChanges st))\<lparr>hp_intensity_level := Some (tempIntensity st)\<rparr>)"
  by (simp add: handleSaveIntensity_def Let_def pendingHeader_def)

lemma header_handleSaveNotes:
  "pc_workout (pendingChanges (handleSaveNotes st))
     = Some ((pendingHeader (pendingChanges st))\<lparr>hp_notes := Some (trimmedNotes st)\<rparr>)"
  by (simp add: handleSaveNotes_def Let_def pendingHeader_def)

lemma header_handleSaveDuration:
  assumes "workout st \<noteq> None" and "tempStartDateTime st \<noteq> []" and "tempEndDateTime st \<noteq> []"
    and "dateMs (tempStartDateTime st) < dateMs (tempEndDateTime st)"
  shows "pc_workout (pendingChanges (handleSaveDuration dateMs toISOString st))
     = Some ((pendingHeader (pendingChanges st))
         \<lparr>hp_started_at := Some (toISOString (dateMs (tempStartDateTime st))),
          hp_completed_at := Some (toISOString (dateMs (tempEndDateTime st))),
          hp_duration_minutes := Some
            ((dateMs (tempEndDateTime st) - dateMs (tempStartDateTime st) + 30000) div 60000)\<rparr>)"
  using assms by (auto simp: handleSaveDuration_def Let_def pendingHeader_def)

lemma newSet_recorded:
  assumes "workout st = Some w" and "addingSetToExercise st = Some adding"
    and "truthyNum adding"
    and "find (\<lambda>ex. strictEq (we_id ex) adding) (wk_exercises w) = Some exercise"
  shows "pendingChanges (handleSaveNewSet form now st) =
    (pendingChanges st)\<lparr>pc_newSets :=
       mapSet (newSetKey adding (tempSetIdCounter st))
         (recordedNewSet form now adding (nextSetNumber (getDisplaySets (pendingChanges st) exercise)))
         (newMap (pc_newSets (pendingChanges st)))\<rparr>"
  using assms by (simp add: handleSaveNewSet_def Let_def recordedNewSet_def)


subsection \<open>Set numbers across additions, deletions and edits\<close>


lemma display_distinct:
  "distinct (map ws_set_number (getDisplaySets pc exercise)) = distinct (storedNumbers pc exercise)"
  by (simp add: display_numbers storedNumbers_def del: distinct_append map_append)

lemma mapSet_filter_numbers:
  fixes g :: "'k \<times> 'v \<Rightarrow> int"
  assumes "P k"
  shows "set (map g (filter (\<lambda>p. P (fst p)) (mapSet k v m)))
      \<subseteq> insert (g (k, v)) (set (map g (filter (\<lambda>p. P (fst p)) m)))"
    and "g (k, v) \<in> set (map g (filter (\<lambda>p. P (fst p)) (mapSet k v m)))"
  using assms by (induction m) auto

lemma mapSet_filter_distinct:
  fixes g :: "'k \<times> 'v \<Rightarrow> int"
  assumes "P k" and "distinct (map g (filter (\<lambda>p. P (fst p)) m))"
    and "g (k, v) \<notin> set (map g (filter (\<lambda>p. P (fst p)) m))"
  shows "distinct (map g (filter (\<lambda>p. P (fst p)) (mapSet k v m)))"
  using assms
proof (induction m)
  case Nil
  then show ?case by simp
next
  case (Cons p m)
  show ?case
  proof (cases "fst p = k")
    case True
    then show ?thesis using Cons.prems by auto
  next
    case False
    have sub: "set (map g (filter (\<lambda>p. P (fst p)) (mapSet k v m)))
        \<subseteq> insert (g (k, v)) (set (map g (filter (\<lambda>p. P (fst p)) m)))"
      using Cons.prems(1) by (rule mapSet_filter_numbers(1))
    show ?thesis
    proof (cases "P (fst p)")
      case True
      have ih: "distinct (map g (filter (\<lambda>p. P (fst p)) (mapSet k v m)))"
        using Cons.IH Cons.prems True by simp
      have "g p \<notin> set (map g (filter (\<lambda>p. P (fst p)) (mapSet k v m)))"
        using sub Cons.prems(2,3) True by auto
      then show ?thesis using ih False True by simp
    next
      case no: False
      then show ?thesis using Cons.IH Cons.prems False by simp
    qed
  qed
qed

lemma filter_more_distinct:
  assumes "distinct (map f (filter P xs) @ ys)"
  shows "distinct (map f (filter (\<lambda>x. P x \<and> Q x) xs) @ ys)"
proof -
  have eq: "filter (\<lambda>x. P x \<and> Q x) xs = filter Q (filter P xs)"
    by simp
  have "distinct (map f (filter Q zs) @ ys)" if "distinct (map f zs @ ys)" for zs
    using that by (auto simp: distinct_map_filter)
  then show ?thesis
    unfolding eq using assms by blast
qed

lemma notPendingDelete_after_delete:
  assumes "ledgerInv (pendingChanges st)" and "workout st \<noteq> None"
  shows "notPendingDelete (pendingChanges (handleDeleteSet True setId st)) s
      = (notPendingDelete (pendingChanges st) s \<and> ws_id s \<noteq> setId)"
  using assms
  by (auto simp: handleDeleteSet_def Let_def notPendingDelete_def ledgerInv_def newMap_id
      mapGet_mapSet split: option.splits)

lemma newSets_after_delete:
  "pc_newSets (pendingChanges (handleDeleteSet c setId st)) = pc_newSets (pendingChanges st)"
  by (simp add: handleDeleteSet_def Let_def)

lemma delete_keeps_distinct:
  assumes "ledgerInv (pendingChanges st)" and "workout st \<noteq> None"
    and "distinct (map ws_set_number (getDisplaySets (pendingChanges st) exercise))"
  shows "distinct (map ws_set_number
      (getDisplaySets (pendingChanges (handleDeleteSet True setId st)) exercise))"
proof -
  have d: "distinct (storedNumbers (pendingChanges st) exercise)"
    using assms(3) by (simp only: display_distinct)
  have "storedNumbers (pendingChanges (handleDeleteSet True setId st)) exercise
      = map ws_set_number
          (filter (\<lambda>s. notPendingDelete (pendingChanges st) s \<and> ws_id s \<noteq> setId) (we_sets exercise)) @
        map (\<lambda>p. ns_set_number (snd p))
          (filter (\<lambda>p. startsWith (fst p) (toString (we_id exercise) @ ''-''))
             (pc_newSets (pendingChanges st)))"
  proof -
    have "notPendingDelete (pendingChanges (handleDeleteSet True setId st))
        = (\<lambda>s. notPendingDelete (pendingChanges st) s \<and> ws_id s \<noteq> setId)"
      by (intro ext) (rule notPendingDelete_after_delete [OF assms(1,2)])
    then show ?thesis
      unfolding storedNumbers_def newSets_after_delete by simp
  qed
  then have "distinct (storedNumbers (pendingChanges (handleDeleteSet True setId st)) exercise)"
    using d filter_more_distinct
    unfolding storedNumbers_def by (simp del: distinct_append)
  then show ?thesis by (simp only: display_distinct)
qed

lemma edit_keeps_numbers:
  assumes "ledgerInv (pendingChanges st)" and "editingSet st = Some es"
    and "map_option psc_type (mapGet (pc_sets (pendingChanges st)) (ws_id es)) \<noteq> Some Delete"
  shows "storedNumbers (pendingChanges (handleUpdateSet form st)) exercise
      = storedNumbers (pendingChanges st) exercise"
proof -
  have "notPendingDelete (pendingChanges (handleUpdateSet form st)) s
      = notPendingDelete (pendingChanges st) s" for s
    using assms
    by (auto simp: handleUpdateSet_def Let_def notPendingDelete_def ledgerInv_def newMap_id
        mapGet_mapSet split: option.splits)
  then have "notPendingDelete (pendingChanges (handleUpdateSet form st))
      = notPendingDelete (pendingChanges st)"
    by (intro ext)
  moreover have "pc_newSets (pendingChanges (handleUpdateSet form st)) = pc_newSets (pendingChanges st)"
    using assms(2) by (simp add: handleUpdateSet_def Let_def)
  ultimately show ?thesis by (simp add: storedNumbers_def)
qed


lemma storedNumbers_mapSet:
  assumes "pc_sets pc' = pc_sets pc"
    and "pc_newSets pc' = mapSet (toString (we_id exercise) @ ''-'' @ rest) d (pc_newSets pc)"
  shows "set (storedNumbers pc' exercise) \<subseteq> insert (ns_set_number d) (set (storedNumbers pc exercise))"
    and "ns_set_number d \<in> set (storedNumbers pc' exercise)"
    and "distinct (storedNumbers pc exercise) \<Longrightarrow> ns_set_number d \<notin> set (storedNumbers pc exercise)
      \<Longrightarrow> distinct (storedNumbers pc' exercise)"
proof -
  define pre where "pre = toString (we_id exercise) @ ''-''"
  define k where "k = toString (we_id exercise) @ ''-'' @ rest"
  define g where "g = (\<lambda>p :: string \<times> NewSetData. ns_set_number (snd p))"
  define base where "base = map ws_set_number (filter (notPendingDelete pc) (we_sets exercise))"
  define old where "old = map g (filter (\<lambda>p. startsWith (fst p) pre) (pc_newSets pc))"
  define new where "new = map g (filter (\<lambda>p. startsWith (fst p) pre) (mapSet k d (pc_newSets pc)))"
  have same: "notPendingDelete pc' = notPendingDelete pc"
    using assms(1) by (intro ext) (simp add: notPendingDelete_def)
  have own: "startsWith k pre"
    using startsWith_own [of "toString (we_id exercise) @ ''-''" rest] by (simp add: k_def pre_def)
  have before: "storedNumbers pc exercise = base @ old"
    by (simp add: storedNumbers_def base_def old_def g_def pre_def)
  have after: "storedNumbers pc' exercise = base @ new"
    by (simp add: storedNumbers_def same assms(2) base_def new_def g_def pre_def k_def)
  have gd: "g (k, d) = ns_set_number d" by (simp add: g_def)
  have sub: "set new \<subseteq> insert (ns_set_number d) (set old)"
    using mapSet_filter_numbers(1) [of "\<lambda>k. startsWith k pre" k g d "pc_newSets pc", OF own]
    unfolding new_def old_def gd .
  have mem: "ns_set_number d \<in> set new"
    using mapSet_filter_numbers(2) [of "\<lambda>k. startsWith k pre" k g d "pc_newSets pc", OF own]
    unfolding new_def gd .
  show "set (storedNumbers pc' exercise) \<subseteq> insert (ns_set_number d) (set (storedNumbers pc exercise))"
    unfolding before after using sub by auto
  show "ns_set_number d \<in> set (storedNumbers pc' exercise)"
    unfolding after using mem by simp
  show "distinct (storedNumbers pc' exercise)"
    if dist: "distinct (storedNumbers pc exercise)"
      and fresh: "ns_set_number d \<notin> set (storedNumbers pc exercise)"
  proof -
    have d1: "distinct base" and d2: "distinct old" and d3: "set base \<inter> set old = {}"
      using dist unfolding before by auto
    have f1: "ns_set_number d \<notin> set base" and f2: "g (k, d) \<notin> set old"
      using fresh unfolding before gd by auto
    have "distinct new"
      unfolding new_def
      using mapSet_filter_distinct [of "\<lambda>k. startsWith k pre" k g "pc_newSets pc" d, OF own]
        d2 f2
      unfolding old_def by blast
    moreover have "set base \<inter> set new = {}"
      using sub d3 f1 by auto
    ultimately show ?thesis unfolding after using d1 by simp
  qed
qed

lemma newSet_numbers:
  assumes "workout st = Some w" and "addingSetToExercise st = Some adding"
    and "truthyNum adding"
    and "find (\<lambda>ex. strictEq (we_id ex) adding) (wk_exercises w) = Some exercise"
    and "ledgerInv (pendingChanges st)"
    and "\<forall>s \<in> set (getDisplaySets (pendingChanges st) exercise). isSafeInteger (ws_set_number s)"
  shows "mapGet (pc_newSets (pendingChanges (handleSaveNewSet form now st)))
        (newSetKey adding (tempSetIdCounter st))
      = Some (recordedNewSet form now adding
          (nextSetNumber (getDisplaySets (pendingChanges st) exercise)))"
    and "nextSetNumber (getDisplaySets (pendingChanges st) exercise)
      = (if getDisplaySets (pendingChanges st) exercise = [] then 1
         else Max (set (map ws_set_number (getDisplaySets (pendingChanges st) exercise))) + 1)"
    and "\<forall>s \<in> set (getDisplaySets (pendingChanges st) exercise).
        ws_set_number s < nextSetNumber (getDisplaySets (pendingChanges st) exercise)"
    and "nextSetNumber (getDisplaySets (pendingChanges st) exercise)
      \<in> set (map ws_set_number
          (getDisplaySets (pendingChanges (handleSaveNewSet form now st)) exercise))"
    and "set (map ws_set_number
          (getDisplaySets (pendingChanges (handleSaveNewSet form now st)) exercise))
      \<subseteq> insert (nextSetNumber (getDisplaySets (pendingChanges st) exercise))
          (set (map ws_set_number (getDisplaySets (pendingChanges st) exercise)))"
    and "newSetKey adding (tempSetIdCounter st) \<notin> fst ` set (pc_newSets (pendingChanges st)) \<longrightarrow>
      set (map ws_set_number
          (getDisplaySets (pendingChanges (handleSaveNewSet form now st)) exercise))
      = insert (nextSetNumber (getDisplaySets (pendingChanges st) exercise))
          (set (map ws_set_number (getDisplaySets (pendingChanges st) exercise)))"
    and "distinct (map ws_set_number (getDisplaySets (pendingChanges st) exercise)) \<longrightarrow>
      distinct (map ws_set_number
         (getDisplaySets (pendingChanges (handleSaveNewSet form now st)) exercise))"
proof -
  define pc where "pc = pendingChanges st"
  define pc' where "pc' = pendingChanges (handleSaveNewSet form now st)"
  define n where "n = nextSetNumber (getDisplaySets pc exercise)"
  define d where "d = recordedNewSet form now adding n"
  define key where "key = newSetKey adding (tempSetIdCounter st)"
  have keys: "distinct (map fst (pc_newSets pc))"
    using assms(5) by (simp add: ledgerInv_def pc_def)
  have rec: "pc' = pc\<lparr>pc_newSets := mapSet key d (pc_newSets pc)\<rparr>"
    unfolding pc'_def newSet_recorded [OF assms(1-4)]
    using keys by (simp add: newMap_id pc_def key_def d_def n_def)
  have id: "we_id exercise = adding" using assms(4) by (rule find_strictEq)
  have key: "key = toString (we_id exercise) @ ''-'' @ toString (Num (tempSetIdCounter st))"
    by (simp add: key_def newSetKey_def id)
  have a: "pc_sets pc' = pc_sets pc" unfolding rec by simp
  have b: "pc_newSets pc' = mapSet
      (toString (we_id exercise) @ ''-'' @ toString (Num (tempSetIdCounter st))) d (pc_newSets pc)"
    unfolding rec key by simp
  have nd: "ns_set_number d = n" by (simp add: d_def recordedNewSet_def)
  note sn = storedNumbers_mapSet [OF a b, unfolded nd]
  have safe: "\<forall>s \<in> set (getDisplaySets pc exercise). isSafeInteger (ws_set_number s)"
    using assms(6) by (simp add: pc_def)
  have above: "\<forall>s \<in> set (getDisplaySets pc exercise). ws_set_number s < n"
    unfolding n_def using safe by (rule nextSetNumber_above)
  have nx: "n = (if getDisplaySets pc exercise = [] then 1
      else Max (set (map ws_set_number (getDisplaySets pc exercise))) + 1)"
    unfolding n_def using safe by (rule nextSetNumber_safe)
  have got: "mapGet (pc_newSets pc') key = Some d"
    unfolding rec by (simp add: mapGet_mapSet)
  have mem: "n \<in> set (map ws_set_number (getDisplaySets pc' exercise))"
    unfolding display_stored using sn(2) by simp
  have sub: "set (map ws_set_number (getDisplaySets pc' exercise))
      \<subseteq> insert n (set (map ws_set_number (getDisplaySets pc exercise)))"
    unfolding display_stored using sn(1) by simp
  have fresh: "n \<notin> set (storedNumbers pc exercise)"
  proof
    assume "n \<in> set (storedNumbers pc exercise)"
    then have "n \<in> set (map ws_set_number (getDisplaySets pc exercise))"
      unfolding display_stored by simp
    then show False using above by auto
  qed
  have dist: "distinct (map ws_set_number (getDisplaySets pc exercise)) \<longrightarrow>
      distinct (map ws_set_number (getDisplaySets pc' exercise))"
    unfolding display_distinct using sn(3) fresh by blast
  have eq: "key \<notin> fst ` set (pc_newSets pc) \<longrightarrow>
      set (map ws_set_number (getDisplaySets pc' exercise))
      = insert n (set (map ws_set_number (getDisplaySets pc exercise)))"
  proof
    assume k: "key \<notin> fst ` set (pc_newSets pc)"
    have "pc_newSets pc' = pc_newSets pc @
        [(toString (we_id exercise) @ ''-'' @ toString (Num (tempSetIdCounter st)), d)]"
      using b k unfolding key by (simp add: mapSet_fresh)
    from storedNumbers_after [OF a this]
    show "set (map ws_set_number (getDisplaySets pc' exercise))
      = insert n (set (map ws_set_number (getDisplaySets pc exercise)))"
      unfolding display_stored nd by simp
  qed
  show "mapGet (pc_newSets (pendingChanges (handleSaveNewSet form now st)))
        (newSetKey adding (tempSetIdCounter st))
      = Some (recordedNewSet form now adding
          (nextSetNumber (getDisplaySets (pendingChanges st) exercise)))"
    using got unfolding pc'_def key_def d_def n_def pc_def .
  show "nextSetNumber (getDisplaySets (pendingChanges st) exercise)
      = (if getDisplaySets (pendingChanges st) exercise = [] then 1
         else Max (set (map ws_set_number (getDisplaySets (pendingChanges st) exercise))) + 1)"
    using nx unfolding n_def pc_def .
  show "\<forall>s \<in> set (getDisplaySets (pendingChanges st) exercise).
        ws_set_number s < nextSetNumber (getDisplaySets (pendingChanges st) exercise)"
    using above unfolding n_def pc_def .
  show "nextSetNumber (getDisplaySets (pendingChanges st) exercise)
      \<in> set (map ws_set_number
          (getDisplaySets (pendingChanges (handleSaveNewSet form now st)) exercise))"
    using mem unfolding n_def pc_def pc'_def .
  show "set (map ws_set_number
          (getDisplaySets (pendingChanges (handleSaveNewSet form now st)) exercise))
      \<subseteq> insert (nextSetNumber (getDisplaySets (pendingChanges st) exercise))
          (set (map ws_set_number (getDisplaySets (pendingChanges st) exercise)))"
    using sub unfolding n_def pc_def pc'_def .
  show "newSetKey adding (tempSetIdCounter st) \<notin> fst ` set (pc_newSets (pendingChanges st)) \<longrightarrow>
      set (map ws_set_number
          (getDisplaySets (pendingChanges (handleSaveNewSet form now st)) exercise))
      = insert (nextSetNumber (getDisplaySets (pendingChanges st) exercise))
          (set (map ws_set_number (getDisplaySets (pendingChanges st) exercise)))"
    using eq unfolding n_def pc_def pc'_def key_def .
  show "distinct (map ws_set_number (getDisplaySets (pendingChanges st) exercise)) \<longrightarrow>
      distinct (map ws_set_number
         (getDisplaySets (pendingChanges (handleSaveNewSet form now st)) exercise))"
    using dist unfolding n_def pc_def pc'_def .
qed

lemma edit_keeps_display:
  assumes "ledgerInv (pendingChanges st)" and "editingSet st = Some es"
    and "map_option psc_type (mapGet (pc_sets (pendingChanges st)) (ws_id es)) \<noteq> Some Delete"
  shows "map ws_set_number (getDisplaySets (pendingChanges (handleUpdateSet form st)) exercise)
      = map ws_set_number (getDisplaySets (pendingChanges st) exercise)"
  unfolding display_stored edit_keeps_numbers [OF assms] ..

section \<open>Claims about recording into the ledger\<close>

text \<open>
  C8. After every recording handler each Map of the ledger holds every key once,
  provided it did before; that covers the nine handlers that write to the ledger. A write
  replaces what was pending for the same id and leaves the entries of every other id as
  they were:
  \<^item> after \<^verbatim>\<open>handleUpdateSet\<close> the only entry for the edited set is the edit;
  \<^item> after a confirmed \<^verbatim>\<open>handleDeleteSet\<close> the only entry for the set is the delete, so
    a pending edit of that set is discarded;
  \<^item> after a confirmed \<^verbatim>\<open>handleDeleteExercise\<close> of a persisted instance the only entry
    for the instance is the delete; of a pending new exercise, its entry is removed from
    the new exercises and the exercise changes stay as they were;
  \<^item> after \<^verbatim>\<open>handleAddSelectedExercises\<close> in replace mode, when the details of the
    chosen exercise arrive, the only entry for the replaced instance is the replacement
    by the chosen exercise; in add mode the new exercise is put under its temporary id;
  \<^item> after \<^verbatim>\<open>handleSaveNewSet\<close> the only entry under the key of the new set is the new
    set;
  \<^item> the four header handlers write their own fields into the one pending header patch
    and keep its other fields.
\<close>

theorem C8_one_entry_per_id:
  assumes "ledgerInv (pendingChanges st)"
  shows "ledgerInv (pendingChanges (recordAction a st)) \<and>
    (\<forall>es form. editingSet st = Some es \<longrightarrow>
       entriesFor (ws_id es) (pc_sets (pendingChanges (recordAction (ActUpdateSet form) st)))
         = [(ws_id es, editEntry es form)] \<and>
       (\<forall>k. k \<noteq> ws_id es \<longrightarrow>
          entriesFor k (pc_sets (pendingChanges (recordAction (ActUpdateSet form) st)))
            = entriesFor k (pc_sets (pendingChanges st)))) \<and>
    (\<forall>setId. workout st \<noteq> None \<longrightarrow>
       entriesFor setId (pc_sets (pendingChanges (recordAction (ActDeleteSet True setId) st)))
         = [(setId, deleteEntry setId)] \<and>
       (\<forall>k. k \<noteq> setId \<longrightarrow>
          entriesFor k (pc_sets (pendingChanges (recordAction (ActDeleteSet True setId) st)))
            = entriesFor k (pc_sets (pendingChanges st)))) \<and>
    (\<forall>exerciseId. workout st \<noteq> None \<longrightarrow> \<not> ltZero exerciseId \<longrightarrow>
       entriesFor exerciseId
         (pc_exercises (pendingChanges (recordAction (ActDeleteExercise True exerciseId) st)))
         = [(exerciseId, exerciseDeleteEntry exerciseId)] \<and>
       (\<forall>k. k \<noteq> exerciseId \<longrightarrow>
          entriesFor k
            (pc_exercises (pendingChanges (recordAction (ActDeleteExercise True exerciseId) st)))
            = entriesFor k (pc_exercises (pendingChanges st)))) \<and>
    (\<forall>exerciseId. workout st \<noteq> None \<longrightarrow> ltZero exerciseId \<longrightarrow>
       pc_newExercises (pendingChanges (recordAction (ActDeleteExercise True exerciseId) st))
         = mapDelete (toString (absNum exerciseId)) (pc_newExercises (pendingChanges st)) \<and>
       pc_exercises (pendingChanges (recordAction (ActDeleteExercise True exerciseId) st))
         = pc_exercises (pendingChanges st)) \<and>
    (\<forall>remote now newId r d.
       workout st \<noteq> None \<longrightarrow> exerciseSelectionMode st = ModeReplace \<longrightarrow>
       replacingExerciseId st = Some r \<longrightarrow> truthyNum r \<longrightarrow>
       remote (length (requests st)) = Ok (ExerciseBody d) \<longrightarrow>
       entriesFor r
         (pc_exercises (pendingChanges (recordAction (ActAddSelectedExercises remote now [newId]) st)))
         = [(r, replaceEntry r newId (ed_name d))] \<and>
       (\<forall>k. k \<noteq> r \<longrightarrow>
          entriesFor k
            (pc_exercises
               (pendingChanges (recordAction (ActAddSelectedExercises remote now [newId]) st)))
            = entriesFor k (pc_exercises (pendingChanges st)))) \<and>
    (\<forall>remote now newId d.
       workout st \<noteq> None \<longrightarrow> exerciseSelectionMode st = ModeAdd \<longrightarrow>
       remote (length (requests st)) = Ok (ExerciseBody d) \<longrightarrow>
       pc_newExercises (pendingChanges (recordAction (ActAddSelectedExercises remote now [newId]) st))
         = mapSet (fst (newExerciseEntry now 0 d)) (snd (newExerciseEntry now 0 d))
             (pc_newExercises (pendingChanges st))) \<and>
    (\<forall>w adding exercise form now.
       workout st = Some w \<longrightarrow> addingSetToExercise st = Some adding \<longrightarrow> truthyNum adding \<longrightarrow>
       find (\<lambda>ex. strictEq (we_id ex) adding) (wk_exercises w) = Some exercise \<longrightarrow>
       entriesFor (newSetKey adding (tempSetIdCounter st))
         (pc_newSets (pendingChanges (recordAction (ActSaveNewSet form now) st)))
         = [(newSetKey adding (tempSetIdCounter st),
             recordedNewSet form now adding
               (nextSetNumber (getDisplaySets (pendingChanges st) exercise)))] \<and>
       (\<forall>k. k \<noteq> newSetKey adding (tempSetIdCounter st) \<longrightarrow>
          entriesFor k (pc_newSets (pendingChanges (recordAction (ActSaveNewSet form now) st)))
            = entriesFor k (pc_newSets (pendingChanges st)))) \<and>
    pc_workout (pendingChanges (recordAction ActSaveTitle st))
      = Some ((pendingHeader (pendingChanges st))\<lparr>hp_name := Some (tempWorkoutName st)\<rparr>) \<and>
    pc_workout (pendingChanges (recordAction ActSaveIntensity st))
      = Some ((pendingHeader (pendingChanges st))\<lparr>hp_intensity_level := Some (tempIntensity st)\<rparr>) \<and>
    pc_workout (pendingChanges (recordAction ActSaveNotes st))
      = Some ((pendingHeader (pendingChanges st))\<lparr>hp_notes := Some (trimmedNotes st)\<rparr>) \<and>
    (\<forall>dateMs toISOString.
       workout st \<noteq> None \<longrightarrow> tempStartDateTime st \<noteq> [] \<longrightarrow> tempEndDateTime st \<noteq> [] \<longrightarrow>
       dateMs (tempStartDateTime st) < dateMs (tempEndDateTime st) \<longrightarrow>
       pc_workout (pendingChanges (recordAction (ActSaveDuration dateMs toISOString) st))
         = Some ((pendingHeader (pendingChanges st))
             \<lparr>hp_started_at := Some (toISOString (dateMs (tempStartDateTime st))),
              hp_completed_at := Some (toISOString (dateMs (tempEndDateTime st))),
              hp_duration_minutes := Some
                ((dateMs (tempEndDateTime st) - dateMs (tempStartDateTime st) + 30000)
                   div 60000)\<rparr>))"
proof -
  note inv = assms
  have a: "ledgerInv (pendingChanges (recordAction a st))"
    using inv by (rule inv_recordAction)
  have b: "\<forall>es form. editingSet st = Some es \<longrightarrow>
       entriesFor (ws_id es) (pc_sets (pendingChanges (recordAction (ActUpdateSet form) st)))
         = [(ws_id es, editEntry es form)] \<and>
       (\<forall>k. k \<noteq> ws_id es \<longrightarrow>
          entriesFor k (pc_sets (pendingChanges (recordAction (ActUpdateSet form) st)))
            = entriesFor k (pc_sets (pendingChanges st)))"
    using inv by (simp add: entries_handleUpdateSet others_handleUpdateSet)
  have c: "\<forall>setId. workout st \<noteq> None \<longrightarrow>
       entriesFor setId (pc_sets (pendingChanges (recordAction (ActDeleteSet True setId) st)))
         = [(setId, deleteEntry setId)] \<and>
       (\<forall>k. k \<noteq> setId \<longrightarrow>
          entriesFor k (pc_sets (pendingChanges (recordAction (ActDeleteSet True setId) st)))
            = entriesFor k (pc_sets (pendingChanges st)))"
    using inv by (simp add: entries_handleDeleteSet others_handleDeleteSet)
  have d: "\<forall>exerciseId. workout st \<noteq> None \<longrightarrow> \<not> ltZero exerciseId \<longrightarrow>
       entriesFor exerciseId
         (pc_exercises (pendingChanges (recordAction (ActDeleteExercise True exerciseId) st)))
         = [(exerciseId, exerciseDeleteEntry exerciseId)] \<and>
       (\<forall>k. k \<noteq> exerciseId \<longrightarrow>
          entriesFor k
            (pc_exercises (pendingChanges (recordAction (ActDeleteExercise True exerciseId) st)))
            = entriesFor k (pc_exercises (pendingChanges st)))"
    using inv by (simp add: entries_handleDeleteExercise others_handleDeleteExercise)
  have e: "\<forall>exerciseId. workout st \<noteq> None \<longrightarrow> ltZero exerciseId \<longrightarrow>
       pc_newExercises (pendingChanges (recordAction (ActDeleteExercise True exerciseId) st))
         = mapDelete (toString (absNum exerciseId)) (pc_newExercises (pendingChanges st)) \<and>
       pc_exercises (pendingChanges (recordAction (ActDeleteExercise True exerciseId) st))
         = pc_exercises (pendingChanges st)"
    using inv by (simp add: pendingNew_handleDeleteExercise)
  have f: "\<forall>remote now newId r d.
       workout st \<noteq> None \<longrightarrow> exerciseSelectionMode st = ModeReplace \<longrightarrow>
       replacingExerciseId st = Some r \<longrightarrow> truthyNum r \<longrightarrow>
       remote (length (requests st)) = Ok (ExerciseBody d) \<longrightarrow>
       entriesFor r
         (pc_exercises (pendingChanges (recordAction (ActAddSelectedExercises remote now [newId]) st)))
         = [(r, replaceEntry r newId (ed_name d))] \<and>
       (\<forall>k. k \<noteq> r \<longrightarrow>
          entriesFor k
            (pc_exercises
               (pendingChanges (recordAction (ActAddSelectedExercises remote now [newId]) st)))
            = entriesFor k (pc_exercises (pendingChanges st)))"
  proof (intro allI impI conjI)
    fix remote now newId r d k
    assume h: "workout st \<noteq> None" "exerciseSelectionMode st = ModeReplace"
      "replacingExerciseId st = Some r" "truthyNum r"
      "remote (length (requests st)) = Ok (ExerciseBody d)"
    show "entriesFor r
         (pc_exercises (pendingChanges (recordAction (ActAddSelectedExercises remote now [newId]) st)))
         = [(r, replaceEntry r newId (ed_name d))]"
      using entries_replace [of st r remote d now newId, OF h] by simp
    assume "k \<noteq> r"
    then show "entriesFor k
            (pc_exercises
               (pendingChanges (recordAction (ActAddSelectedExercises remote now [newId]) st)))
            = entriesFor k (pc_exercises (pendingChanges st))"
      using others_replace [of st r remote d k now newId, OF inv h] by simp
  qed
  have g: "\<forall>remote now newId d.
       workout st \<noteq> None \<longrightarrow> exerciseSelectionMode st = ModeAdd \<longrightarrow>
       remote (length (requests st)) = Ok (ExerciseBody d) \<longrightarrow>
       pc_newExercises (pendingChanges (recordAction (ActAddSelectedExercises remote now [newId]) st))
         = mapSet (fst (newExerciseEntry now 0 d)) (snd (newExerciseEntry now 0 d))
             (pc_newExercises (pendingChanges st))"
  proof (intro allI impI)
    fix remote now newId d
    assume h: "workout st \<noteq> None" "exerciseSelectionMode st = ModeAdd"
      "remote (length (requests st)) = Ok (ExerciseBody d)"
    show "pc_newExercises
        (pendingChanges (recordAction (ActAddSelectedExercises remote now [newId]) st))
         = mapSet (fst (newExerciseEntry now 0 d)) (snd (newExerciseEntry now 0 d))
             (pc_newExercises (pendingChanges st))"
      using add_records [of st remote d now newId, OF h] inv
      by (simp add: newMap_snoc ledgerInv_def newMap_id)
  qed
  have h: "\<forall>w adding exercise form now.
       workout st = Some w \<longrightarrow> addingSetToExercise st = Some adding \<longrightarrow> truthyNum adding \<longrightarrow>
       find (\<lambda>ex. strictEq (we_id ex) adding) (wk_exercises w) = Some exercise \<longrightarrow>
       entriesFor (newSetKey adding (tempSetIdCounter st))
         (pc_newSets (pendingChanges (recordAction (ActSaveNewSet form now) st)))
         = [(newSetKey adding (tempSetIdCounter st),
             recordedNewSet form now adding
               (nextSetNumber (getDisplaySets (pendingChanges st) exercise)))] \<and>
       (\<forall>k. k \<noteq> newSetKey adding (tempSetIdCounter st) \<longrightarrow>
          entriesFor k (pc_newSets (pendingChanges (recordAction (ActSaveNewSet form now) st)))
            = entriesFor k (pc_newSets (pendingChanges st)))"
  proof (intro allI impI)
    fix w adding exercise form now
    assume p: "workout st = Some w" "addingSetToExercise st = Some adding" "truthyNum adding"
      "find (\<lambda>ex. strictEq (we_id ex) adding) (wk_exercises w) = Some exercise"
    have keys: "distinct (map fst (pc_newSets (pendingChanges st)))"
      using inv by (simp add: ledgerInv_def)
    show "entriesFor (newSetKey adding (tempSetIdCounter st))
         (pc_newSets (pendingChanges (recordAction (ActSaveNewSet form now) st)))
         = [(newSetKey adding (tempSetIdCounter st),
             recordedNewSet form now adding
               (nextSetNumber (getDisplaySets (pendingChanges st) exercise)))] \<and>
       (\<forall>k. k \<noteq> newSetKey adding (tempSetIdCounter st) \<longrightarrow>
          entriesFor k (pc_newSets (pendingChanges (recordAction (ActSaveNewSet form now) st)))
            = entriesFor k (pc_newSets (pendingChanges st)))"
      using keys
      by (simp add: newSet_recorded [OF p] mapSet_entries mapSet_other_entries newMap_id)
  qed
  have i: "pc_workout (pendingChanges (recordAction ActSaveTitle st))
      = Some ((pendingHeader (pendingChanges st))\<lparr>hp_name := Some (tempWorkoutName st)\<rparr>)"
    by (simp add: header_handleSaveTitle)
  have j: "pc_workout (pendingChanges (recordAction ActSaveIntensity st))
      = Some ((pendingHeader (pendingChanges st))\<lparr>hp_intensity_level := Some (tempIntensity st)\<rparr>)"
    by (simp add: header_handleSaveIntensity)
  have k: "pc_workout (pendingChanges (recordAction ActSaveNotes st))
      = Some ((pendingHeader (pendingChanges st))\<lparr>hp_notes := Some (trimmedNotes st)\<rparr>)"
    by (simp add: header_handleSaveNotes)
  have l: "\<forall>dateMs toISOString.
       workout st \<noteq> None \<longrightarrow> tempStartDateTime st \<noteq> [] \<longrightarrow> tempEndDateTime st \<noteq> [] \<longrightarrow>
       dateMs (tempStartDateTime st) < dateMs (tempEndDateTime st) \<longrightarrow>
       pc_workout (pendingChanges (recordAction (ActSaveDuration dateMs toISOString) st))
         = Some ((pendingHeader (pendingChanges st))
             \<lparr>hp_started_at := Some (toISOString (dateMs (tempStartDateTime st))),
              hp_completed_at := Some (toISOString (dateMs (tempEndDateTime st))),
              hp_duration_minutes := Some
                ((dateMs (tempEndDateTime st) - dateMs (tempStartDateTime st) + 30000)
                   div 60000)\<rparr>)"
    by (simp add: header_handleSaveDuration)
  show ?thesis
    by (intro conjI) (fact a, fact b, fact c, fact d, fact e, fact f, fact g, fact h, fact i,
        fact j, fact k, fact l)
qed

theorem C8_one_entry_per_id_witness:
  "ledgerInv (pendingChanges stateSet5Edited) \<and>
   entriesFor (Num 5) (pc_sets (pendingChanges stateSet5Edited))
     = [(Num 5, editEntry (sampleSet 5 3 1) sampleForm)] \<and>
   ledgerInv (pendingChanges (recordAction (ActDeleteSet True (Num 5)) stateSet5Edited)) \<and>
   entriesFor (Num 5)
     (pc_sets (pendingChanges (recordAction (ActDeleteSet True (Num 5)) stateSet5Edited)))
     = [(Num 5, deleteEntry (Num 5))] \<and>
   pc_workout (pendingChanges (recordAction ActSaveIntensity stateSet5Edited))
     = Some (emptyHeaderPatch\<lparr>hp_intensity_level := Some 3\<rparr>) \<and>
   ledgerInv (pendingChanges stateReplacingDeleted3) \<and>
   entriesFor (Num 3) (pc_exercises (pendingChanges stateReplacingDeleted3))
     = [(Num 3, exerciseDeleteEntry (Num 3))] \<and>
   entriesFor (Num 3)
     (pc_exercises (pendingChanges
        (recordAction (ActAddSelectedExercises sampleRemote 8 [41]) stateReplacingDeleted3)))
     = [(Num 3, replaceEntry (Num 3) 41 ''Lunge'')]"
proof -
  have inv: "ledgerInv (pendingChanges stateSet5Edited)" by code_simp
  have loaded: "workout stateSet5Edited \<noteq> None" by code_simp
  have before: "entriesFor (Num 5) (pc_sets (pendingChanges stateSet5Edited))
      = [(Num 5, editEntry (sampleSet 5 3 1) sampleForm)]" by code_simp
  have header: "(pendingHeader (pendingChanges stateSet5Edited))
      \<lparr>hp_intensity_level := Some (tempIntensity stateSet5Edited)\<rparr>
      = emptyHeaderPatch\<lparr>hp_intensity_level := Some 3\<rparr>" by code_simp
  have inv3: "ledgerInv (pendingChanges stateReplacingDeleted3)" by code_simp
  have loaded3: "workout stateReplacingDeleted3 \<noteq> None" by code_simp
  have mode3: "exerciseSelectionMode stateReplacingDeleted3 = ModeReplace" by code_simp
  have target3: "replacingExerciseId stateReplacingDeleted3 = Some (Num 3)" by code_simp
  have before3: "entriesFor (Num 3) (pc_exercises (pendingChanges stateReplacingDeleted3))
      = [(Num 3, exerciseDeleteEntry (Num 3))]" by code_simp
  have answer: "sampleRemote (length (requests stateReplacingDeleted3))
      = Ok (ExerciseBody sampleDetails)" by (simp add: sampleRemote_def)
  have name: "ed_name sampleDetails = ''Lunge''" by (simp add: sampleDetails_def)
  have truthy: "truthyNum (Num 3)" by simp
  note T = C8_one_entry_per_id [OF inv, of "ActDeleteSet True (Num 5)"]
  note T3 = C8_one_entry_per_id [OF inv3, of ActSaveTitle]
  have a: "ledgerInv (pendingChanges (recordAction (ActDeleteSet True (Num 5)) stateSet5Edited))"
    using T by (rule conjunct1)
  have b: "entriesFor (Num 5)
        (pc_sets (pendingChanges (recordAction (ActDeleteSet True (Num 5)) stateSet5Edited)))
        = [(Num 5, deleteEntry (Num 5))]"
    using T [THEN conjunct2, THEN conjunct2, THEN conjunct1, rule_format, OF loaded,
        THEN conjunct1] .
  have c: "pc_workout (pendingChanges (recordAction ActSaveIntensity stateSet5Edited))
        = Some (emptyHeaderPatch\<lparr>hp_intensity_level := Some 3\<rparr>)"
    using T [THEN conjunct2, THEN conjunct2, THEN conjunct2, THEN conjunct2, THEN conjunct2,
        THEN conjunct2, THEN conjunct2, THEN conjunct2, THEN conjunct2, THEN conjunct1]
    by (simp only: header)
  have d: "entriesFor (Num 3)
     (pc_exercises (pendingChanges
        (recordAction (ActAddSelectedExercises sampleRemote 8 [41]) stateReplacingDeleted3)))
     = [(Num 3, replaceEntry (Num 3) 41 ''Lunge'')]"
    using T3 [THEN conjunct2, THEN conjunct2, THEN conjunct2, THEN conjunct2, THEN conjunct2,
        THEN conjunct1, rule_format,
        where remote = sampleRemote and r = "Num 3" and d = sampleDetails and now = 8
          and newId = 41,
        OF loaded3 mode3 target3 truthy answer, THEN conjunct1]
    by (simp only: name)
  show ?thesis
    by (intro conjI) (fact inv, fact before, fact a, fact b, fact c, fact inv3, fact before3,
        fact d)
qed

text \<open>
  C4, as stated, fails: \<^verbatim>\<open>handleUpdateSet\<close> has no check of the ledger. In the sample
  state where set 5 has a pending delete, updating set 5 leaves an edit pending for it.
\<close>

theorem C4_edit_after_delete_counterexample:
  "map_option psc_type (mapGet (pc_sets (pendingChanges stateSet5Deleted)) (Num 5)) = Some Delete \<and>
   map_option psc_type
     (mapGet (pc_sets (pendingChanges
        (handleUpdateSet sampleForm (handleEditSet (sampleSet 5 3 1) stateSet5Deleted)))) (Num 5))
     = Some Edit"
  by code_simp

text \<open>
  C4, amended. \<^verbatim>\<open>handleUpdateSet\<close> never rejects: when the edited set has a pending
  delete, the edit replaces it and is the only entry for that id. The guard is in the
  view: the menu that starts an edit is rendered only for a displayed set that has no
  pending delete.
\<close>

theorem C4_edit_replaces_pending_delete:
  assumes "editingSet st = Some es"
    and "mapGet (pc_sets (pendingChanges st)) (ws_id es) = Some c"
    and "psc_type c = Delete"
  shows "entriesFor (ws_id es) (pc_sets (pendingChanges (handleUpdateSet form st)))
      = [(ws_id es, editEntry es form)] \<and>
    (\<forall>pc exercise s. setMenuRendered pc exercise s \<longrightarrow>
       map_option psc_type (mapGet (pc_sets pc) (ws_id s)) \<noteq> Some Delete)"
proof -
  have menu: "map_option psc_type (mapGet (pc_sets pc) (ws_id s)) \<noteq> Some Delete"
    if "setMenuRendered pc exercise s" for pc exercise s
  proof (cases "mapGet (pc_sets pc) (ws_id s)")
    case None
    then show ?thesis by simp
  next
    case (Some e)
    then have "ws_id s \<in> fst ` set (pc_sets pc)"
      by (auto simp: mapGet_def dest: map_of_SomeD intro: rev_image_eqI)
    then show ?thesis using that Some
      by (auto simp: setMenuRendered_def isPendingDelete_def mapHas_def)
  qed
  show ?thesis using entries_handleUpdateSet [OF assms(1)] menu by blast
qed

theorem C4_edit_replaces_pending_delete_witness:
  "editingSet (handleEditSet (sampleSet 5 3 1) stateSet5Deleted) = Some (sampleSet 5 3 1) \<and>
   mapGet (pc_sets (pendingChanges (handleEditSet (sampleSet 5 3 1) stateSet5Deleted))) (Num 5)
     = Some (deleteEntry (Num 5)) \<and>
   entriesFor (Num 5)
     (pc_sets (pendingChanges
        (handleUpdateSet sampleForm (handleEditSet (sampleSet 5 3 1) stateSet5Deleted))))
     = [(Num 5, editEntry (sampleSet 5 3 1) sampleForm)]"
proof -
  have a: "editingSet (handleEditSet (sampleSet 5 3 1) stateSet5Deleted) = Some (sampleSet 5 3 1)"
    by code_simp
  have b: "mapGet (pc_sets (pendingChanges (handleEditSet (sampleSet 5 3 1) stateSet5Deleted)))
      (ws_id (sampleSet 5 3 1)) = Some (deleteEntry (Num 5))"
    by code_simp
  have c: "psc_type (deleteEntry (Num 5)) = Delete" by code_simp
  have d: "ws_id (sampleSet 5 3 1) = Num 5" by code_simp
  show ?thesis
    using C4_edit_replaces_pending_delete [OF a b c, of sampleForm] a b d by simp
qed

text \<open>
  C9. \<^verbatim>\<open>handleAddSet\<close> on an exercise instance with a negative id only alerts: the
  ledger, the target of the add-set dialog and the dialog itself stay as they were.
  When no target was set before, a later \<^verbatim>\<open>handleSaveNewSet\<close> records nothing either.
\<close>

theorem C9_no_new_set_on_pending_exercise:
  assumes "ltZero exerciseId"
  shows "handleAddSet exerciseId st = alert addSetRefusal st \<and>
    pendingChanges (handleAddSet exerciseId st) = pendingChanges st \<and>
    addingSetToExercise (handleAddSet exerciseId st) = addingSetToExercise st \<and>
    showAddSetDialog (handleAddSet exerciseId st) = showAddSetDialog st \<and>
    (addingSetToExercise st = None \<longrightarrow>
       pendingChanges (handleSaveNewSet form now (handleAddSet exerciseId st)) = pendingChanges st)"
  using assms
  by (simp add: handleAddSet_def alert_def addSetRefusal_def handleSaveNewSet_def)

theorem C9_no_new_set_on_pending_exercise_witness:
  "ltZero (Num (- 7)) \<and>
   alerts (handleAddSet (Num (- 7)) stateNewExercise) = [addSetRefusal] \<and>
   pc_newSets (pendingChanges (handleAddSet (Num (- 7)) stateNewExercise)) = [] \<and>
   pc_newSets (pendingChanges
     (handleSaveNewSet sampleForm ''2024-01-02'' (handleAddSet (Num (- 7)) stateNewExercise))) = []"
proof -
  have a: "ltZero (Num (- 7))" by simp
  have b: "addingSetToExercise stateNewExercise = None" by code_simp
  have c: "pc_newSets (pendingChanges stateNewExercise) = []" by code_simp
  have d: "alerts stateNewExercise = []" by code_simp
  note t = C9_no_new_set_on_pending_exercise [OF a, of stateNewExercise sampleForm "''2024-01-02''"]
  have e1: "alerts (handleAddSet (Num (- 7)) stateNewExercise) = [addSetRefusal]"
    using t d by (simp add: alert_def)
  from t have "pendingChanges (handleAddSet (Num (- 7)) stateNewExercise)
    = pendingChanges stateNewExercise"
    by blast
  then have e2: "pc_newSets (pendingChanges (handleAddSet (Num (- 7)) stateNewExercise)) = []"
    using c by simp
  from t b have "pendingChanges
      (handleSaveNewSet sampleForm ''2024-01-02'' (handleAddSet (Num (- 7)) stateNewExercise))
    = pendingChanges stateNewExercise"
    by blast
  then have e3: "pc_newSets (pendingChanges
      (handleSaveNewSet sampleForm ''2024-01-02'' (handleAddSet (Num (- 7)) stateNewExercise))) = []"
    using c by simp
  show ?thesis using a e1 e2 e3 by blast
qed

text \<open>
  C10. Deleting the displayed exercise \<open>-7\<close> removes its entry from the new exercises
  and records no delete. The replacement recorded for \<open>-7\<close> before stays in the
  ledger, keyed by the negative id, and saving sends it to the remote store.
\<close>

theorem C10_replace_entry_for_pending_exercise:
  "map we_id (getDisplayExercises stateNewExercise) = [Num 3, Num (- 7)] \<and>
   map fst (pc_newExercises (pendingChanges stateNewExercise)) = [''7''] \<and>
   pc_newExercises (pendingChanges stateNewExerciseDeleted) = [] \<and>
   map (\<lambda>p. (fst p, pec_type (snd p), pec_newExerciseId (snd p)))
     (pc_exercises (pendingChanges stateNewExerciseDeleted)) = [(Num (- 7), ExReplace, Some 41)] \<and>
   PutReplaceExercise (Num (- 7)) 41
     \<in> set (requests (handleSaveAllChanges sampleRemote stateNewExerciseDeleted))"
  by code_simp

section \<open>Claims about the restored ledger\<close>

lemma loadSaved_frame:
  assumes "loadSaved parse st = (r, st1)"
  shows "requests st1 = requests st \<and> alerts st1 = alerts st \<and> navigations st1 = navigations st
    \<and> routeId st1 = routeId st"
  using assms
  by (auto simp: loadSaved_def Let_def split: option.splits list.splits)

lemma restore_with_ledger:
  assumes load: "loadSaved parse (st\<lparr>isRestoring := True\<rparr>) = ((Some saved, hw, cnt), st1)"
    and ok: "remote (length (requests st)) = Ok (WorkoutBody data)"
  shows "pendingChanges (fetchWorkoutSummaryWithPendingPreservation parse remote now st)
      = reconcile saved data \<and>
    tempSetIdCounter (fetchWorkoutSummaryWithPendingPreservation parse remote now st) = cnt \<and>
    alerts (fetchWorkoutSummaryWithPendingPreservation parse remote now st) = alerts st \<and>
    navigations (fetchWorkoutSummaryWithPendingPreservation parse remote now st) = navigations st"
proof -
  have fr: "requests st1 = requests st \<and> alerts st1 = alerts st \<and>
      navigations st1 = navigations st \<and> routeId st1 = routeId st"
    using loadSaved_frame [OF load] by simp
  then have "fetch remote (GetWorkoutNoCache (routeId st1) now) st1
      = (Ok (WorkoutBody data), st1\<lparr>requests := requests st1 @ [GetWorkoutNoCache (routeId st1) now]\<rparr>)"
    using ok by (simp add: fetch_def)
  then show ?thesis
    using load fr
    by (simp add: fetchWorkoutSummaryWithPendingPreservation_def Let_def)
qed

text \<open>
  C1. For a stored ledger whose Maps hold every key once, the restored ledger is the
  stored one filtered: a set change is kept iff some exercise of the fresh data has a set
  whose id is \<^verbatim>\<open>===\<close> the key, an exercise change is kept iff its key is the id of an
  exercise of the fresh data, a new set is kept iff the number parsed from the part of its
  key before the first dash is such an id, and the new exercises and the header patch
  are kept as they are. The parsed number is the owning instance's id for every key that
  \<^verbatim>\<open>handleSaveNewSet\<close> builds for an instance id that is not negative. When the
  fresh data arrives, the restore routine installs this filtered ledger and raises no alert
  and navigates nowhere.
\<close>

theorem C1_reconcile_keeps_valid_entries:
  assumes "ledgerInv saved"
  shows
    "pc_sets (reconcile saved data)
       = filter (\<lambda>p. setStillExists data (fst p)) (pc_sets saved) \<and>
     pc_exercises (reconcile saved data)
       = filter (\<lambda>p. fst p \<in> currentExerciseIds data) (pc_exercises saved) \<and>
     pc_newSets (reconcile saved data)
       = filter (\<lambda>p. newSetOwner (fst p) \<in> currentExerciseIds data) (pc_newSets saved) \<and>
     pc_newExercises (reconcile saved data) = pc_newExercises saved \<and>
     pc_workout (reconcile saved data) = pc_workout saved \<and>
     (\<forall>setId. setStillExists data setId \<longleftrightarrow>
        (\<exists>ex \<in> set (wk_exercises data). \<exists>s \<in> set (we_sets ex). strictEq (ws_id s) setId)) \<and>
     (\<forall>e t. 0 \<le> e \<longrightarrow> newSetOwner (newSetKey (Num e) t) = Num e) \<and>
     (\<forall>parse remote now st hw cnt st1.
        loadSaved parse (st\<lparr>isRestoring := True\<rparr>) = ((Some saved, hw, cnt), st1) \<longrightarrow>
        remote (length (requests st)) = Ok (WorkoutBody data) \<longrightarrow>
        pendingChanges (fetchWorkoutSummaryWithPendingPreservation parse remote now st)
          = reconcile saved data \<and>
        alerts (fetchWorkoutSummaryWithPendingPreservation parse remote now st) = alerts st \<and>
        navigations (fetchWorkoutSummaryWithPendingPreservation parse remote now st)
          = navigations st)"
proof -
  have d: "distinct (map fst (pc_sets saved))" "distinct (map fst (pc_exercises saved))"
    "distinct (map fst (pc_newSets saved))" "distinct (map fst (pc_newExercises saved))"
    using assms by (simp_all add: ledgerInv_def)
  have a: "pc_sets (reconcile saved data)
      = filter (\<lambda>p. setStillExists data (fst p)) (pc_sets saved)"
    by (simp add: reconcile_def keepValid_filter [OF d(1)])
  have b: "pc_exercises (reconcile saved data)
      = filter (\<lambda>p. fst p \<in> currentExerciseIds data) (pc_exercises saved)"
    by (simp add: reconcile_def keepValid_filter [OF d(2)])
  have c: "pc_newSets (reconcile saved data)
      = filter (\<lambda>p. newSetOwner (fst p) \<in> currentExerciseIds data) (pc_newSets saved)"
    by (simp add: reconcile_def keepValid_filter [OF d(3)])
  have e: "pc_newExercises (reconcile saved data) = pc_newExercises saved"
    by (simp add: reconcile_def keepValid_filter [OF d(4)])
  have f: "pc_workout (reconcile saved data) = pc_workout saved"
    by (simp add: reconcile_def)
  have g: "setStillExists data setId \<longleftrightarrow>
      (\<exists>ex \<in> set (wk_exercises data). \<exists>s \<in> set (we_sets ex). strictEq (ws_id s) setId)" for setId
    by (simp add: setStillExists_def list_ex_iff)
  show ?thesis
    using a b c e f g newSetOwner_newSetKey restore_with_ledger by blast
qed

theorem C1_reconcile_keeps_valid_entries_witness:
  "ledgerInv (pendingChanges staleState) \<and>
   map fst (pc_sets (pendingChanges staleState)) = [Num 5, Num 99] \<and>
   map fst (pc_exercises (pendingChanges staleState)) = [Num 77] \<and>
   map fst (pc_newSets (pendingChanges staleState)) = [''3-1'', ''77-2''] \<and>
   map fst (pc_newExercises (pendingChanges staleState)) = [''7''] \<and>
   map fst (pc_sets (reconcile (pendingChanges staleState) sampleData)) = [Num 5] \<and>
   pc_exercises (reconcile (pendingChanges staleState) sampleData) = [] \<and>
   map fst (pc_newSets (reconcile (pendingChanges staleState) sampleData)) = [''3-1''] \<and>
   map fst (pc_newExercises (reconcile (pendingChanges staleState) sampleData)) = [''7''] \<and>
   newSetOwner (newSetKey (Num 3) 1) = Num 3 \<and>
   pendingChanges (fetchWorkoutSummaryWithPendingPreservation noBlob freshRemote 0 staleState)
     = reconcile (pendingChanges staleState) sampleData \<and>
   alerts (fetchWorkoutSummaryWithPendingPreservation noBlob freshRemote 0 staleState) = []"
proof -
  have inv: "ledgerInv (pendingChanges staleState)" by code_simp
  note t = C1_reconcile_keeps_valid_entries [OF inv, of sampleData]
  have keys: "map fst (pc_sets (pendingChanges staleState)) = [Num 5, Num 99]"
    "map fst (pc_exercises (pendingChanges staleState)) = [Num 77]"
    "map fst (pc_newSets (pendingChanges staleState)) = [''3-1'', ''77-2'']"
    "map fst (pc_newExercises (pendingChanges staleState)) = [''7'']"
    by code_simp+
  have "map fst (filter (\<lambda>p. setStillExists sampleData (fst p)) (pc_sets (pendingChanges staleState)))
      = [Num 5]"
    by code_simp
  with t have r1: "map fst (pc_sets (reconcile (pendingChanges staleState) sampleData)) = [Num 5]"
    by simp
  have "filter (\<lambda>p. fst p \<in> currentExerciseIds sampleData) (pc_exercises (pendingChanges staleState))
      = []"
    by code_simp
  with t have r2: "pc_exercises (reconcile (pendingChanges staleState) sampleData) = []"
    by simp
  have "map fst (filter (\<lambda>p. newSetOwner (fst p) \<in> currentExerciseIds sampleData)
      (pc_newSets (pendingChanges staleState))) = [''3-1'']"
    by code_simp
  with t have r3: "map fst (pc_newSets (reconcile (pendingChanges staleState) sampleData)) = [''3-1'']"
    by simp
  from t keys have r4:
    "map fst (pc_newExercises (reconcile (pendingChanges staleState) sampleData)) = [''7'']"
    by simp
  from t have r5: "newSetOwner (newSetKey (Num 3) 1) = Num 3" by simp
  have load: "loadSaved noBlob (staleState\<lparr>isRestoring := True\<rparr>)
      = ((Some (pendingChanges staleState), pc_workout (pendingChanges staleState),
          tempSetIdCounter staleState), staleState\<lparr>isRestoring := True\<rparr>)"
    by code_simp
  have ok: "freshRemote (length (requests staleState)) = Ok (WorkoutBody sampleData)"
    by (simp add: freshRemote_def)
  have al: "alerts staleState = []" by code_simp
  from t load ok have r6:
    "pendingChanges (fetchWorkoutSummaryWithPendingPreservation noBlob freshRemote 0 staleState)
       = reconcile (pendingChanges staleState) sampleData \<and>
     alerts (fetchWorkoutSummaryWithPendingPreservation noBlob freshRemote 0 staleState)
       = alerts staleState"
    by blast
  show ?thesis using inv keys r1 r2 r3 r4 r5 r6 al by simp
qed

section \<open>Claims about saving\<close>

text \<open>
  C2. When a workout is loaded and the ledger is not empty, a save whose requests all
  succeed issues exactly the planned requests and then refetches the workout. The plan
  is the header stage, then the set edits and deletes, then the new sets, then the new
  exercises, then the exercise deletes and replacements; its stage numbers never
  decrease, and the only request of stage 1 is the one PATCH of the header, present when
  the header patch has a key. Whatever the remote store answers, the requests issued are
  a prefix of that sequence.
\<close>

theorem C2_commit_stage_order:
  assumes "workout st = Some w" and "hasPendingChanges st"
  shows
    "((\<forall>i. isOk (remote i)) \<longrightarrow>
        requests (handleSaveAllChanges remote st)
          = requests st @ plannedRequests w (pendingChanges st) @ [GetWorkout (routeId st)]) \<and>
     plannedRequests w (pendingChanges st)
       = map fst (headerStage w (pendingChanges st)) @
         map fst (concat (map setChangeStep (pc_sets (pendingChanges st)))) @
         map fst (concat (map newSetStep (pc_newSets (pendingChanges st)))) @
         map fst (concat (map (newExerciseStep w) (pc_newExercises (pendingChanges st)))) @
         map fst (concat (map exerciseChangeStep (pc_exercises (pendingChanges st)))) \<and>
     sorted (map stage (plannedRequests w (pendingChanges st))) \<and>
     filter (\<lambda>r. stage r = 1) (plannedRequests w (pendingChanges st))
       = map fst (headerStage w (pendingChanges st)) \<and>
     length (headerStage w (pendingChanges st)) \<le> 1 \<and>
     (\<exists>ys. prefix ys (plannedRequests w (pendingChanges st) @ [GetWorkout (routeId st)]) \<and>
        requests (handleSaveAllChanges remote st) = requests st @ ys)"
proof -
  have a: "(\<forall>i. isOk (remote i)) \<longrightarrow>
      requests (handleSaveAllChanges remote st)
        = requests st @ plannedRequests w (pendingChanges st) @ [GetWorkout (routeId st)]"
  proof
    assume "\<forall>i. isOk (remote i)"
    then have "\<forall>j < length (commitPlan w (pendingChanges st)).
        isOk (remote (length (requests st) + j))"
      by simp
    with assms show "requests (handleSaveAllChanges remote st)
        = requests st @ plannedRequests w (pendingChanges st) @ [GetWorkout (routeId st)]"
      by (rule commit_success_facts(1))
  qed
  have b: "plannedRequests w (pendingChanges st)
       = map fst (headerStage w (pendingChanges st)) @
         map fst (concat (map setChangeStep (pc_sets (pendingChanges st)))) @
         map fst (concat (map newSetStep (pc_newSets (pendingChanges st)))) @
         map fst (concat (map (newExerciseStep w) (pc_newExercises (pendingChanges st)))) @
         map fst (concat (map exerciseChangeStep (pc_exercises (pendingChanges st))))"
    by (simp only: plannedRequests_def commitPlan_def map_append)
  have c: "length (headerStage w (pendingChanges st)) \<le> 1"
    by (simp add: headerStage_def split: option.splits)
  show ?thesis
    using a b c plan_sorted [of w "pendingChanges st"]
      header_only_stage_one [of w "pendingChanges st"] commit_prefix [OF assms, of remote]
    by blast
qed

theorem C2_commit_stage_order_witness:
  "workout busyState = Some renamedData \<and> hasPendingChanges busyState \<and>
   requests busyState = [GetExercise 41, GetExercise 41] \<and>
   map stage (drop 2 (requests (handleSaveAllChanges freshRemote busyState)))
     = [1, 2, 2, 3, 3, 4, 5, 6]"
proof -
  have w: "workout busyState = Some renamedData" by code_simp
  have h: "hasPendingChanges busyState" by code_simp
  have r: "requests busyState = [GetExercise 41, GetExercise 41]" by code_simp
  have ok: "\<forall>i. isOk (freshRemote i)" by (simp add: freshRemote_def)
  have p: "map stage (plannedRequests renamedData (pendingChanges busyState)) = [1, 2, 2, 3, 3, 4, 5]"
    by code_simp
  from C2_commit_stage_order [OF w h, of freshRemote] ok
  have "requests (handleSaveAllChanges freshRemote busyState)
      = requests busyState @ plannedRequests renamedData (pendingChanges busyState)
          @ [GetWorkout (routeId busyState)]"
    by blast
  then have "map stage (drop 2 (requests (handleSaveAllChanges freshRemote busyState)))
      = map stage (plannedRequests renamedData (pendingChanges busyState)) @ [6]"
    using r by simp
  then show ?thesis using w h r p by simp
qed

text \<open>
  C3, as stated, fails in its last part. When the remote store cannot be reached, the
  \<^verbatim>\<open>fetch\<close> of the header patch rejects, and the alert carries the message of the
  rejection, not the message that names the header update. The ledger is intact.
\<close>

theorem C3_unnamed_failure_counterexample:
  "hasPendingChanges busyState \<and>
   snd (commitPlan renamedData (pendingChanges busyState) ! 0) = ''Failed to update workout details'' \<and>
   alerts busyState = [] \<and>
   alerts (handleSaveAllChanges unreachable busyState) = [''Failed to save changes: Failed to fetch''] \<and>
   pendingChanges (handleSaveAllChanges unreachable busyState) = pendingChanges busyState"
  by code_simp

text \<open>
  C3, amended. When the planned request number \<open>i\<close> is the first that fails, the save
  stops there: no later request and no refetch is issued, the ledger and the displayed
  workout are as before, and one alert is raised. When the remote store answered that
  request with a status that is not OK, the alert names the operation. When the call
  itself was rejected, the alert carries the message of the rejection, or
  \<^verbatim>\<open>Unknown error\<close> when the rejection is not an \<^verbatim>\<open>Error\<close>.
\<close>

theorem C3_failed_commit_keeps_ledger:
  assumes "workout st = Some w" and "hasPendingChanges st"
    and "i < length (commitPlan w (pendingChanges st))"
    and "\<forall>j < i. isOk (remote (length (requests st) + j))"
    and "\<not> isOk (remote (length (requests st) + i))"
  shows
    "pendingChanges (handleSaveAllChanges remote st) = pendingChanges st \<and>
     workout (handleSaveAllChanges remote st) = workout st \<and>
     requests (handleSaveAllChanges remote st)
       = requests st @ map fst (take (Suc i) (commitPlan w (pendingChanges st))) \<and>
     (remote (length (requests st) + i) = NotOk \<longrightarrow>
        alerts (handleSaveAllChanges remote st)
          = alerts st @ [''Failed to save changes: '' @ snd (commitPlan w (pendingChanges st) ! i)]) \<and>
     (\<forall>m. remote (length (requests st) + i) = Rejected (Some m) \<longrightarrow>
        alerts (handleSaveAllChanges remote st) = alerts st @ [''Failed to save changes: '' @ m]) \<and>
     (remote (length (requests st) + i) = Rejected None \<longrightarrow>
        alerts (handleSaveAllChanges remote st)
          = alerts st @ [''Failed to save changes: Unknown error''])"
proof -
  note f = commit_failure_facts [OF assms]
  have al: "alerts (handleSaveAllChanges remote st)
      = alerts st @ [failureReport (thrownBy (commitPlan w (pendingChanges st) ! i)
                                      (remote (length (requests st) + i)))]"
    by (rule f(6))
  have n: "remote (length (requests st) + i) = NotOk \<longrightarrow>
      alerts (handleSaveAllChanges remote st)
        = alerts st @ [''Failed to save changes: '' @ snd (commitPlan w (pendingChanges st) ! i)]"
    unfolding al by (simp add: failureReport_def)
  have r: "\<forall>m. remote (length (requests st) + i) = Rejected (Some m) \<longrightarrow>
      alerts (handleSaveAllChanges remote st) = alerts st @ [''Failed to save changes: '' @ m]"
    unfolding al by (simp add: failureReport_def)
  have u: "remote (length (requests st) + i) = Rejected None \<longrightarrow>
      alerts (handleSaveAllChanges remote st) = alerts st @ [''Failed to save changes: Unknown error'']"
    unfolding al by (simp add: failureReport_def)
  show ?thesis using f(1) f(2) f(4) n r u by blast
qed

theorem C3_failed_commit_keeps_ledger_witness:
  "workout busyState = Some renamedData \<and> hasPendingChanges busyState \<and>
   length (requests busyState) = 2 \<and> failAt 5 5 = NotOk \<and>
   map fst (take 4 (commitPlan renamedData (pendingChanges busyState)))
     = [PatchWorkout 1 (emptyHeaderPatch\<lparr>hp_name := Some ''Legs''\<rparr>), DeleteSet (Num 5),
        DeleteSet (Num 99), PostSet (Num 3) (snd (pc_newSets (pendingChanges busyState) ! 0))] \<and>
   pendingChanges (handleSaveAllChanges (failAt 5) busyState) = pendingChanges busyState \<and>
   requests (handleSaveAllChanges (failAt 5) busyState)
     = requests busyState @ map fst (take 4 (commitPlan renamedData (pendingChanges busyState))) \<and>
   alerts (handleSaveAllChanges (failAt 5) busyState)
     = [''Failed to save changes: Failed to create new set for exercise 3'']"
proof -
  have w: "workout busyState = Some renamedData" by code_simp
  have h: "hasPendingChanges busyState" by code_simp
  have n: "length (requests busyState) = 2" by code_simp
  have i: "3 < length (commitPlan renamedData (pendingChanges busyState))" by code_simp
  have good: "\<forall>j < 3. isOk (failAt 5 (length (requests busyState) + j))"
    unfolding n by (simp add: failAt_def)
  have bad: "\<not> isOk (failAt 5 (length (requests busyState) + 3))"
    unfolding n by (simp add: failAt_def)
  have no: "failAt 5 (length (requests busyState) + 3) = NotOk"
    unfolding n by (simp add: failAt_def)
  have m: "snd (commitPlan renamedData (pendingChanges busyState) ! 3)
      = ''Failed to create new set for exercise 3''" by code_simp
  have al: "alerts busyState = []" by code_simp
  have pl: "map fst (take 4 (commitPlan renamedData (pendingChanges busyState)))
     = [PatchWorkout 1 (emptyHeaderPatch\<lparr>hp_name := Some ''Legs''\<rparr>), DeleteSet (Num 5),
        DeleteSet (Num 99), PostSet (Num 3) (snd (pc_newSets (pendingChanges busyState) ! 0))]"
    by code_simp
  note t = C3_failed_commit_keeps_ledger [OF w h i good bad]
  from t have t1: "pendingChanges (handleSaveAllChanges (failAt 5) busyState) = pendingChanges busyState"
    by blast
  from t have t2: "requests (handleSaveAllChanges (failAt 5) busyState)
     = requests busyState @ map fst (take (Suc 3) (commitPlan renamedData (pendingChanges busyState)))"
    by blast
  from t no have "alerts (handleSaveAllChanges (failAt 5) busyState)
      = alerts busyState @ [''Failed to save changes: '' @
          snd (commitPlan renamedData (pendingChanges busyState) ! 3)]"
    by blast
  then have t3: "alerts (handleSaveAllChanges (failAt 5) busyState)
      = [''Failed to save changes: Failed to create new set for exercise 3'']"
    unfolding m al by simp
  have f: "failAt 5 5 = NotOk" by (simp add: failAt_def)
  have s: "Suc 3 = 4" by simp
  show ?thesis using w h n f pl t1 t2 [unfolded s] t3 by blast
qed

text \<open>
  C7, as stated, fails: the save routine never touches the session storage. In the sample
  state with a hand-off blob stored for workout 1, a save that succeeds clears the ledger
  and leaves the blob where it was.
\<close>

theorem C7_blob_survives_commit_counterexample:
  "mapGet (sessionStorage blobState) (preservationKey ''1'') = Some ''{}'' \<and>
   routeId blobState = ''1'' \<and> hasPendingChanges blobState \<and>
   alerts (handleSaveAllChanges freshRemote blobState) = [''All changes saved successfully!''] \<and>
   pendingChanges (handleSaveAllChanges freshRemote blobState) = emptyPendingChanges \<and>
   mapGet (sessionStorage (handleSaveAllChanges freshRemote blobState)) (preservationKey ''1'')
     = Some ''{}''"
  by code_simp

text \<open>
  C7, amended. A save whose requests all succeed clears the ledger, reports success and
  refetches the workout as its last request; the fetched data becomes the displayed and
  the original workout. The save leaves the session storage and the timers as they were.
  The blob is removed by a timer only: a restore that reads a blob keeps it and schedules
  its removal after 30000 ms, and that timer's callback removes it.
\<close>

theorem C7_commit_clears_ledger_not_blob:
  assumes "workout st = Some w" and "hasPendingChanges st"
    and "\<forall>j < length (commitPlan w (pendingChanges st)). isOk (remote (length (requests st) + j))"
  shows
    "pendingChanges (handleSaveAllChanges remote st) = emptyPendingChanges \<and>
     alerts (handleSaveAllChanges remote st) = alerts st @ [''All changes saved successfully!''] \<and>
     last (requests (handleSaveAllChanges remote st)) = GetWorkout (routeId st) \<and>
     (\<forall>data. remote (length (requests st) + length (commitPlan w (pendingChanges st)))
          = Ok (WorkoutBody data) \<longrightarrow>
        workout (handleSaveAllChanges remote st) = Some data \<and>
        originalWorkout (handleSaveAllChanges remote st) = Some data) \<and>
     sessionStorage (handleSaveAllChanges remote st) = sessionStorage st \<and>
     timers (handleSaveAllChanges remote st) = timers st \<and>
     (\<forall>parse remote' now st' blob p.
        mapGet (sessionStorage st') (preservationKey (routeId st')) = Some blob \<longrightarrow>
        blob \<noteq> [] \<longrightarrow> parse blob = Some p \<longrightarrow>
        timers (fetchWorkoutSummaryWithPendingPreservation parse remote' now st')
          = timers st' @ [(30000, preservationKey (routeId st'))] \<and>
        sessionStorage (fetchWorkoutSummaryWithPendingPreservation parse remote' now st')
          = sessionStorage st') \<and>
     (\<forall>t st'. mapGet (sessionStorage (fireTimer t st')) (snd t) = None)"
proof -
  note s = commit_success_facts [OF assms]
  have l: "last (requests (handleSaveAllChanges remote st)) = GetWorkout (routeId st)"
    unfolding s(1) by simp
  have f: "\<forall>t st'. mapGet (sessionStorage (fireTimer t st')) (snd t) = None"
    by (simp add: fireTimer_def mapGet_mapDelete)
  show ?thesis
    using s(2) s(3) s(4) s(5) l f commit_success_refetch [OF assms] restore_keeps_blob
    by blast
qed

theorem C7_commit_clears_ledger_not_blob_witness:
  "workout blobState = Some renamedData \<and> hasPendingChanges blobState \<and>
   sessionStorage blobState = [(preservationKey ''1'', ''{}'')] \<and>
   pendingChanges (handleSaveAllChanges freshRemote blobState) = emptyPendingChanges \<and>
   last (requests (handleSaveAllChanges freshRemote blobState)) = GetWorkout ''1'' \<and>
   workout (handleSaveAllChanges freshRemote blobState) = Some sampleData \<and>
   sessionStorage (handleSaveAllChanges freshRemote blobState) = [(preservationKey ''1'', ''{}'')] \<and>
   timers (fetchWorkoutSummaryWithPendingPreservation parseSample freshRemote 0 blobState)
     = [(30000, preservationKey ''1'')] \<and>
   mapGet (sessionStorage (fireTimer (30000, preservationKey ''1'') blobState)) (preservationKey ''1'')
     = None"
proof -
  have w: "workout blobState = Some renamedData" by code_simp
  have h: "hasPendingChanges blobState" by code_simp
  have ok: "\<forall>j < length (commitPlan renamedData (pendingChanges blobState)).
      isOk (freshRemote (length (requests blobState) + j))"
    by (simp add: freshRemote_def)
  have ss: "sessionStorage blobState = [(preservationKey ''1'', ''{}'')]" by code_simp
  have rid: "routeId blobState = ''1''" by code_simp
  have tm: "timers blobState = []" by code_simp
  have g: "mapGet (sessionStorage blobState) (preservationKey (routeId blobState)) = Some ''{}''"
    by code_simp
  have ne: "''{}'' \<noteq> []" by simp
  have ps: "parseSample ''{}'' = Some sampleBlob" by (simp add: parseSample_def)
  have fr: "freshRemote (length (requests blobState)
      + length (commitPlan renamedData (pendingChanges blobState))) = Ok (WorkoutBody sampleData)"
    by (simp add: freshRemote_def)
  note t = C7_commit_clears_ledger_not_blob [OF w h ok]
  from t have t1: "pendingChanges (handleSaveAllChanges freshRemote blobState) = emptyPendingChanges"
    by blast
  from t have t2: "last (requests (handleSaveAllChanges freshRemote blobState)) = GetWorkout ''1''"
    unfolding rid by blast
  from t fr have t3: "workout (handleSaveAllChanges freshRemote blobState) = Some sampleData"
    by blast
  from t have t4: "sessionStorage (handleSaveAllChanges freshRemote blobState)
      = [(preservationKey ''1'', ''{}'')]"
    unfolding ss by blast
  from t g ne ps have "timers (fetchWorkoutSummaryWithPendingPreservation parseSample freshRemote 0 blobState)
      = timers blobState @ [(30000, preservationKey (routeId blobState))]"
    by blast
  then have t5: "timers (fetchWorkoutSummaryWithPendingPreservation parseSample freshRemote 0 blobState)
      = [(30000, preservationKey ''1'')]"
    unfolding rid tm by simp
  from t have "mapGet (sessionStorage (fireTimer (30000, preservationKey ''1'') blobState))
      (snd (30000 :: nat, preservationKey ''1'')) = None"
    by blast
  then have t6: "mapGet (sessionStorage (fireTimer (30000, preservationKey ''1'') blobState))
      (preservationKey ''1'') = None"
    by simp
  show ?thesis using w h ss t1 t2 t3 t4 t5 t6 by blast
qed
section \<open>Claims about the displayed sets\<close>

lemma restore_workout:
  assumes load: "loadSaved parse (st\<lparr>isRestoring := True\<rparr>) = ((Some saved, None, cnt), st1)"
    and ok: "remote (length (requests st)) = Ok (WorkoutBody data)"
  shows "workout (fetchWorkoutSummaryWithPendingPreservation parse remote now st)
      = Some (applyHeaderPatch emptyHeaderPatch data)"
proof -
  have fr: "requests st1 = requests st \<and> alerts st1 = alerts st \<and>
      navigations st1 = navigations st \<and> routeId st1 = routeId st"
    using loadSaved_frame [OF load] by simp
  then have "fetch remote (GetWorkoutNoCache (routeId st1) now) st1
      = (Ok (WorkoutBody data), st1\<lparr>requests := requests st1 @ [GetWorkoutNoCache (routeId st1) now]\<rparr>)"
    using ok by (simp add: fetch_def)
  then show ?thesis
    using load fr
    by (simp add: fetchWorkoutSummaryWithPendingPreservation_def Let_def)
qed

lemma stateRestored_facts:
  "workout stateRestored = Some sampleData \<and> pendingChanges stateRestored = savedLedger \<and>
   tempSetIdCounter stateRestored = 1"
proof -
  have "fst (loadSaved blobWithoutCounter (pageOpened\<lparr>isRestoring := True\<rparr>))
      = (Some savedLedger, None, 1)"
    by code_simp
  then obtain st1 where load: "loadSaved blobWithoutCounter (pageOpened\<lparr>isRestoring := True\<rparr>)
      = ((Some savedLedger, None, 1), st1)"
    by (cases "loadSaved blobWithoutCounter (pageOpened\<lparr>isRestoring := True\<rparr>)") auto
  have ok: "freshRemote (length (requests pageOpened)) = Ok (WorkoutBody sampleData)"
    by (simp add: freshRemote_def)
  have r: "reconcile savedLedger sampleData = savedLedger" by code_simp
  have h: "applyHeaderPatch emptyHeaderPatch sampleData = sampleData" by code_simp
  show ?thesis
    unfolding stateRestored_def
    using restore_with_ledger [where remote = freshRemote and now = 0, OF load ok]
      restore_workout [where remote = freshRemote and now = 0, OF load ok]
    by (simp only: r h simp_thms)
qed

lemma stateRestoredAdding_facts:
  "workout stateRestoredAdding = Some sampleData \<and>
   pendingChanges stateRestoredAdding = savedLedger \<and>
   tempSetIdCounter stateRestoredAdding = 1 \<and>
   addingSetToExercise stateRestoredAdding = Some (Num 3)"
  using stateRestored_facts by (simp add: stateRestoredAdding_def handleAddSet_def)

text \<open>
  C5, as stated, fails in each of its parts.
  \<^item> Nothing renumbers: in the sample state with set 5 (number 1) marked for deletion,
    the page shows set 6 alone for instance 3, whose number is 2.
  \<^item> Two displayed sets can carry one number. Fetched data may hold the same number
    twice. And the handlers can produce it: after set 6 (number 2) is marked for deletion
    and a set is added, the new set gets number 2; \<^verbatim>\<open>handleUpdateSet\<close> on set 6 then
    replaces the pending delete by an edit, and the page shows the numbers 1, 2, 2.
  \<^item> The number of a new set is computed in double precision: above the set number
    \<open>2^53\<close> it is \<open>2^53\<close> again, not the maximum plus one.
\<close>

theorem C5_set_numbers_counterexample:
  "map ws_set_number (we_sets sampleExercise3) = [1, 2] \<and>
   map_option psc_type (mapGet (pc_sets (pendingChanges stateSet5Deleted)) (Num 5)) = Some Delete \<and>
   map ws_set_number (getDisplaySets (pendingChanges stateSet5Deleted) sampleExercise3) = [2] \<and>
   displayedNumbers stateSet5Deleted = [[2]] \<and>
   map ws_set_number (getDisplaySets emptyPendingChanges twinExercise) = [1, 1] \<and>
   displayedNumbers stateSet6Replaced = [[1, 2]] \<and>
   displayedNumbers stateSet6Back = [[1, 2, 2]] \<and>
   nextSetNumber [sampleSet 5 3 9007199254740992] = 9007199254740992 \<and>
   displayedNumbers stateHugeAdded = [[9007199254740992, 9007199254740992]]"
  by code_simp

text \<open>
  C5, amended. The numbers of the displayed sets are the stored numbers of the sets that
  are not pending deletion followed by those of the pending new sets of the instance, in
  ascending order; no number is changed, so the displayed numbers are pairwise distinct
  exactly when those stored numbers are. For a ledger whose Maps hold every key once:
  \<^item> when \<^verbatim>\<open>handleSaveNewSet\<close> adds a set to an exercise of the workout whose displayed
    numbers are all safe integers (at most \<open>2^53 - 1\<close> in size), the entry recorded
    under the key of the new set gets the largest displayed number plus one, or 1 when no
    set is displayed; this is above every displayed number; the numbers displayed
    afterwards contain the new one and otherwise only old ones (all of them when the
    key is new to the ledger; when the key is already held, its entry is overwritten);
    and if the displayed numbers were pairwise distinct before, they are afterwards;
  \<^item> a confirmed \<^verbatim>\<open>handleDeleteSet\<close> keeps the displayed numbers pairwise distinct;
  \<^item> \<^verbatim>\<open>handleUpdateSet\<close> on a set that has no pending delete leaves the displayed
    numbers as they are.
\<close>

theorem C5_set_numbers:
  assumes "ledgerInv (pendingChanges st)"
  shows
    "(\<forall>pc ex. map ws_set_number (getDisplaySets pc ex) = sort (storedNumbers pc ex)) \<and>
     (\<forall>pc ex. distinct (map ws_set_number (getDisplaySets pc ex)) = distinct (storedNumbers pc ex)) \<and>
     (\<forall>w adding exercise form now.
        workout st = Some w \<longrightarrow> addingSetToExercise st = Some adding \<longrightarrow> truthyNum adding \<longrightarrow>
        find (\<lambda>ex. strictEq (we_id ex) adding) (wk_exercises w) = Some exercise \<longrightarrow>
        (\<forall>s \<in> set (getDisplaySets (pendingChanges st) exercise). isSafeInteger (ws_set_number s)) \<longrightarrow>
        mapGet (pc_newSets (pendingChanges (handleSaveNewSet form now st)))
            (newSetKey adding (tempSetIdCounter st))
          = Some (recordedNewSet form now adding
              (nextSetNumber (getDisplaySets (pendingChanges st) exercise))) \<and>
        nextSetNumber (getDisplaySets (pendingChanges st) exercise)
          = (if getDisplaySets (pendingChanges st) exercise = [] then 1
             else Max (set (map ws_set_number (getDisplaySets (pendingChanges st) exercise))) + 1) \<and>
        (\<forall>s \<in> set (getDisplaySets (pendingChanges st) exercise).
           ws_set_number s < nextSetNumber (getDisplaySets (pendingChanges st) exercise)) \<and>
        nextSetNumber (getDisplaySets (pendingChanges st) exercise)
          \<in> set (map ws_set_number
              (getDisplaySets (pendingChanges (handleSaveNewSet form now st)) exercise)) \<and>
        set (map ws_set_number
              (getDisplaySets (pendingChanges (handleSaveNewSet form now st)) exercise))
          \<subseteq> insert (nextSetNumber (getDisplaySets (pendingChanges st) exercise))
              (set (map ws_set_number (getDisplaySets (pendingChanges st) exercise))) \<and>
        (newSetKey adding (tempSetIdCounter st) \<notin> fst ` set (pc_newSets (pendingChanges st)) \<longrightarrow>
           set (map ws_set_number
               (getDisplaySets (pendingChanges (handleSaveNewSet form now st)) exercise))
           = insert (nextSetNumber (getDisplaySets (pendingChanges st) exercise))
               (set (map ws_set_number (getDisplaySets (pendingChanges st) exercise)))) \<and>
        (distinct (map ws_set_number (getDisplaySets (pendingChanges st) exercise)) \<longrightarrow>
           distinct (map ws_set_number
              (getDisplaySets (pendingChanges (handleSaveNewSet form now st)) exercise)))) \<and>
     (\<forall>setId ex.
        workout st \<noteq> None \<longrightarrow>
        distinct (map ws_set_number (getDisplaySets (pendingChanges st) ex)) \<longrightarrow>
        distinct (map ws_set_number
           (getDisplaySets (pendingChanges (handleDeleteSet True setId st)) ex))) \<and>
     (\<forall>es form ex.
        editingSet st = Some es \<longrightarrow>
        map_option psc_type (mapGet (pc_sets (pendingChanges st)) (ws_id es)) \<noteq> Some Delete \<longrightarrow>
        map ws_set_number (getDisplaySets (pendingChanges (handleUpdateSet form st)) ex)
          = map ws_set_number (getDisplaySets (pendingChanges st) ex))"
proof -
  have a: "\<forall>pc ex. map ws_set_number (getDisplaySets pc ex) = sort (storedNumbers pc ex)"
    by (intro allI) (rule display_stored)
  have b: "\<forall>pc ex. distinct (map ws_set_number (getDisplaySets pc ex))
      = distinct (storedNumbers pc ex)"
    by (intro allI) (rule display_distinct)
  have c: "\<forall>w adding exercise form now.
        workout st = Some w \<longrightarrow> addingSetToExercise st = Some adding \<longrightarrow> truthyNum adding \<longrightarrow>
        find (\<lambda>ex. strictEq (we_id ex) adding) (wk_exercises w) = Some exercise \<longrightarrow>
        (\<forall>s \<in> set (getDisplaySets (pendingChanges st) exercise). isSafeInteger (ws_set_number s)) \<longrightarrow>
        mapGet (pc_newSets (pendingChanges (handleSaveNewSet form now st)))
            (newSetKey adding (tempSetIdCounter st))
          = Some (recordedNewSet form now adding
              (nextSetNumber (getDisplaySets (pendingChanges st) exercise))) \<and>
        nextSetNumber (getDisplaySets (pendingChanges st) exercise)
          = (if getDisplaySets (pendingChanges st) exercise = [] then 1
             else Max (set (map ws_set_number (getDisplaySets (pendingChanges st) exercise))) + 1) \<and>
        (\<forall>s \<in> set (getDisplaySets (pendingChanges st) exercise).
           ws_set_number s < nextSetNumber (getDisplaySets (pendingChanges st) exercise)) \<and>
        nextSetNumber (getDisplaySets (pendingChanges st) exercise)
          \<in> set (map ws_set_number
              (getDisplaySets (pendingChanges (handleSaveNewSet form now st)) exercise)) \<and>
        set (map ws_set_number
              (getDisplaySets (pendingChanges (handleSaveNewSet form now st)) exercise))
          \<subseteq> insert (nextSetNumber (getDisplaySets (pendingChanges st) exercise))
              (set (map ws_set_number (getDisplaySets (pendingChanges st) exercise))) \<and>
        (newSetKey adding (tempSetIdCounter st) \<notin> fst ` set (pc_newSets (pendingChanges st)) \<longrightarrow>
           set (map ws_set_number
               (getDisplaySets (pendingChanges (handleSaveNewSet form now st)) exercise))
           = insert (nextSetNumber (getDisplaySets (pendingChanges st) exercise))
               (set (map ws_set_number (getDisplaySets (pendingChanges st) exercise)))) \<and>
        (distinct (map ws_set_number (getDisplaySets (pendingChanges st) exercise)) \<longrightarrow>
           distinct (map ws_set_number
              (getDisplaySets (pendingChanges (handleSaveNewSet form now st)) exercise)))"
  proof (intro allI impI)
    fix w adding exercise form now
    assume h: "workout st = Some w" "addingSetToExercise st = Some adding" "truthyNum adding"
      "find (\<lambda>ex. strictEq (we_id ex) adding) (wk_exercises w) = Some exercise"
      "\<forall>s \<in> set (getDisplaySets (pendingChanges st) exercise). isSafeInteger (ws_set_number s)"
    note n = newSet_numbers [OF h(1-4) assms h(5)]
    show "mapGet (pc_newSets (pendingChanges (handleSaveNewSet form now st)))
            (newSetKey adding (tempSetIdCounter st))
          = Some (recordedNewSet form now adding
              (nextSetNumber (getDisplaySets (pendingChanges st) exercise))) \<and>
        nextSetNumber (getDisplaySets (pendingChanges st) exercise)
          = (if getDisplaySets (pendingChanges st) exercise = [] then 1
             else Max (set (map ws_set_number (getDisplaySets (pendingChanges st) exercise))) + 1) \<and>
        (\<forall>s \<in> set (getDisplaySets (pendingChanges st) exercise).
           ws_set_number s < nextSetNumber (getDisplaySets (pendingChanges st) exercise)) \<and>
        nextSetNumber (getDisplaySets (pendingChanges st) exercise)
          \<in> set (map ws_set_number
              (getDisplaySets (pendingChanges (handleSaveNewSet form now st)) exercise)) \<and>
        set (map ws_set_number
              (getDisplaySets (pendingChanges (handleSaveNewSet form now st)) exercise))
          \<subseteq> insert (nextSetNumber (getDisplaySets (pendingChanges st) exercise))
              (set (map ws_set_number (getDisplaySets (pendingChanges st) exercise))) \<and>
        (newSetKey adding (tempSetIdCounter st) \<notin> fst ` set (pc_newSets (pendingChanges st)) \<longrightarrow>
           set (map ws_set_number
               (getDisplaySets (pendingChanges (handleSaveNewSet form now st)) exercise))
           = insert (nextSetNumber (getDisplaySets (pendingChanges st) exercise))
               (set (map ws_set_number (getDisplaySets (pendingChanges st) exercise)))) \<and>
        (distinct (map ws_set_number (getDisplaySets (pendingChanges st) exercise)) \<longrightarrow>
           distinct (map ws_set_number
              (getDisplaySets (pendingChanges (handleSaveNewSet form now st)) exercise)))"
      by (intro conjI) (rule n(1), rule n(2), rule n(3), rule n(4), rule n(5), rule n(6),
          rule n(7))
  qed
  have d: "\<forall>setId ex.
        workout st \<noteq> None \<longrightarrow>
        distinct (map ws_set_number (getDisplaySets (pendingChanges st) ex)) \<longrightarrow>
        distinct (map ws_set_number
           (getDisplaySets (pendingChanges (handleDeleteSet True setId st)) ex))"
    using delete_keeps_distinct [OF assms] by (intro allI impI)
  have e: "\<forall>es form ex.
        editingSet st = Some es \<longrightarrow>
        map_option psc_type (mapGet (pc_sets (pendingChanges st)) (ws_id es)) \<noteq> Some Delete \<longrightarrow>
        map ws_set_number (getDisplaySets (pendingChanges (handleUpdateSet form st)) ex)
          = map ws_set_number (getDisplaySets (pendingChanges st) ex)"
    using edit_keeps_display [OF assms] by (intro allI impI)
  show ?thesis
    by (intro conjI) (fact a, fact b, fact c, fact d, fact e)
qed

theorem C5_set_numbers_witness:
  "ledgerInv (pendingChanges stateAddingTo3) \<and>
   map ws_set_number (getDisplaySets (pendingChanges stateAddingTo3) sampleExercise3) = [2] \<and>
   pc_newSets (pendingChanges stateAddingTo3) = [] \<and>
   mapGet (pc_newSets (pendingChanges (handleSaveNewSet sampleForm ''2024-01-02'' stateAddingTo3)))
     ''3-1'' = Some (recordedNewSet sampleForm ''2024-01-02'' (Num 3) 3) \<and>
   set (map ws_set_number
     (getDisplaySets (pendingChanges (handleSaveNewSet sampleForm ''2024-01-02'' stateAddingTo3))
        sampleExercise3)) = {2, 3} \<and>
   distinct (map ws_set_number
     (getDisplaySets (pendingChanges (handleSaveNewSet sampleForm ''2024-01-02'' stateAddingTo3))
        sampleExercise3)) \<and>
   distinct (map ws_set_number
     (getDisplaySets (pendingChanges (handleDeleteSet True (Num 6) stateAddingTo3))
        sampleExercise3)) \<and>
   ledgerInv (pendingChanges stateRestoredAdding) \<and>
   map ws_set_number (getDisplaySets (pendingChanges stateRestoredAdding) sampleExercise3)
     = [1, 2, 3] \<and>
   map fst (pc_newSets (pendingChanges stateRestoredAdding)) = [''3-1''] \<and>
   mapGet (pc_newSets (pendingChanges (handleSaveNewSet sampleForm ''2024-01-02'' stateRestoredAdding)))
     ''3-1'' = Some (recordedNewSet sampleForm ''2024-01-02'' (Num 3) 4) \<and>
   distinct (map ws_set_number
     (getDisplaySets (pendingChanges (handleSaveNewSet sampleForm ''2024-01-02'' stateRestoredAdding))
        sampleExercise3))"
proof -
  have t: "truthyNum (Num 3)" by simp
  have f: "find (\<lambda>ex. strictEq (we_id ex) (Num 3)) (wk_exercises sampleData) = Some sampleExercise3"
    by code_simp
  have w: "workout stateAddingTo3 = Some sampleData" by code_simp
  have a: "addingSetToExercise stateAddingTo3 = Some (Num 3)" by code_simp
  have inv: "ledgerInv (pendingChanges stateAddingTo3)" by code_simp
  have ns: "pc_newSets (pendingChanges stateAddingTo3) = []" by code_simp
  have fresh: "newSetKey (Num 3) (tempSetIdCounter stateAddingTo3)
      \<notin> fst ` set (pc_newSets (pendingChanges stateAddingTo3))"
    unfolding ns by simp
  have k: "newSetKey (Num 3) (tempSetIdCounter stateAddingTo3) = ''3-1''" by code_simp
  have d: "map ws_set_number (getDisplaySets (pendingChanges stateAddingTo3) sampleExercise3) = [2]"
    by code_simp
  have safe: "\<forall>s \<in> set (getDisplaySets (pendingChanges stateAddingTo3) sampleExercise3).
      isSafeInteger (ws_set_number s)"
    by code_simp
  have n: "nextSetNumber (getDisplaySets (pendingChanges stateAddingTo3) sampleExercise3) = 3"
    by code_simp
  have dd: "distinct (map ws_set_number
      (getDisplaySets (pendingChanges stateAddingTo3) sampleExercise3))"
    unfolding d by simp
  have loaded: "workout stateAddingTo3 \<noteq> None" unfolding w by simp
  note T = C5_set_numbers [OF inv]
  note add = T [THEN conjunct2, THEN conjunct2, THEN conjunct1, THEN spec, THEN spec, THEN spec,
      THEN spec, THEN spec, THEN mp, THEN mp, THEN mp, THEN mp, THEN mp, OF w a t f safe,
      of sampleForm "''2024-01-02''"]
  have c1: "mapGet
      (pc_newSets (pendingChanges (handleSaveNewSet sampleForm ''2024-01-02'' stateAddingTo3)))
      ''3-1'' = Some (recordedNewSet sampleForm ''2024-01-02'' (Num 3) 3)"
    using add [THEN conjunct1] unfolding k n .
  have "set (map ws_set_number
     (getDisplaySets (pendingChanges (handleSaveNewSet sampleForm ''2024-01-02'' stateAddingTo3))
        sampleExercise3))
     = insert (nextSetNumber (getDisplaySets (pendingChanges stateAddingTo3) sampleExercise3))
         (set (map ws_set_number (getDisplaySets (pendingChanges stateAddingTo3) sampleExercise3)))"
    using add [THEN conjunct2, THEN conjunct2, THEN conjunct2, THEN conjunct2, THEN conjunct2,
        THEN conjunct1, THEN mp, OF fresh] .
  then have c2: "set (map ws_set_number
     (getDisplaySets (pendingChanges (handleSaveNewSet sampleForm ''2024-01-02'' stateAddingTo3))
        sampleExercise3)) = {2, 3}"
    unfolding n d by auto
  have c3: "distinct (map ws_set_number
     (getDisplaySets (pendingChanges (handleSaveNewSet sampleForm ''2024-01-02'' stateAddingTo3))
        sampleExercise3))"
    using add [THEN conjunct2, THEN conjunct2, THEN conjunct2, THEN conjunct2, THEN conjunct2,
        THEN conjunct2, THEN mp, OF dd] .
  have c4: "distinct (map ws_set_number
     (getDisplaySets (pendingChanges (handleDeleteSet True (Num 6) stateAddingTo3))
        sampleExercise3))"
    using T [THEN conjunct2, THEN conjunct2, THEN conjunct2, THEN conjunct1, rule_format,
        OF loaded dd] .
  have w': "workout stateRestoredAdding = Some sampleData"
    using stateRestoredAdding_facts by (rule conjunct1)
  have pc': "pendingChanges stateRestoredAdding = savedLedger"
    using stateRestoredAdding_facts [THEN conjunct2] by (rule conjunct1)
  have cnt': "tempSetIdCounter stateRestoredAdding = 1"
    using stateRestoredAdding_facts [THEN conjunct2, THEN conjunct2] by (rule conjunct1)
  have a': "addingSetToExercise stateRestoredAdding = Some (Num 3)"
    using stateRestoredAdding_facts [THEN conjunct2, THEN conjunct2] by (rule conjunct2)
  have inv': "ledgerInv (pendingChanges stateRestoredAdding)" unfolding pc' by code_simp
  have keys': "map fst (pc_newSets (pendingChanges stateRestoredAdding)) = [''3-1'']"
    unfolding pc' by code_simp
  have k': "newSetKey (Num 3) (tempSetIdCounter stateRestoredAdding) = ''3-1''"
    unfolding cnt' by code_simp
  have d': "map ws_set_number (getDisplaySets (pendingChanges stateRestoredAdding) sampleExercise3)
      = [1, 2, 3]"
    unfolding pc' by code_simp
  have safe': "\<forall>s \<in> set (getDisplaySets (pendingChanges stateRestoredAdding) sampleExercise3).
      isSafeInteger (ws_set_number s)"
    unfolding pc' by code_simp
  have n': "nextSetNumber (getDisplaySets (pendingChanges stateRestoredAdding) sampleExercise3) = 4"
    unfolding pc' by code_simp
  have dd': "distinct (map ws_set_number
      (getDisplaySets (pendingChanges stateRestoredAdding) sampleExercise3))"
    unfolding d' by simp
  note add' = C5_set_numbers [OF inv', THEN conjunct2, THEN conjunct2, THEN conjunct1, THEN spec,
      THEN spec, THEN spec, THEN spec, THEN spec, THEN mp, THEN mp, THEN mp, THEN mp, THEN mp,
      OF w' a' t f safe', of sampleForm "''2024-01-02''"]
  have c5: "mapGet
      (pc_newSets (pendingChanges (handleSaveNewSet sampleForm ''2024-01-02'' stateRestoredAdding)))
      ''3-1'' = Some (recordedNewSet sampleForm ''2024-01-02'' (Num 3) 4)"
    using add' [THEN conjunct1] unfolding k' n' .
  have c6: "distinct (map ws_set_number
     (getDisplaySets (pendingChanges (handleSaveNewSet sampleForm ''2024-01-02'' stateRestoredAdding))
        sampleExercise3))"
    using add' [THEN conjunct2, THEN conjunct2, THEN conjunct2, THEN conjunct2, THEN conjunct2,
        THEN conjunct2, THEN mp, OF dd'] .
  show ?thesis
    by (intro conjI) (fact inv, fact d, fact ns, fact c1, fact c2, fact c3, fact c4, fact inv',
        fact d', fact keys', fact c5, fact c6)
qed

section \<open>Claims about the purity of the projections\<close>

text \<open>
  C6. Let the sets of an exercise be the array at \<open>setsRef\<close> and the exercises of the
  loaded workout the array at \<open>exercisesRef\<close>, both in use. Each projection returns
  an array whose content is the value of the pure projection, which depends on the
  fetched data and the ledger only. A second call in the store that the first call left
  returns an array with the same content and leaves the first result as it was. After
  both calls every array that was in use before has the content it had: the push and the
  in-place sort of \<^verbatim>\<open>getDisplaySets\<close> write to its own copy only. The ledger is an
  argument that the projections only read.
\<close>

theorem C6_projections_pure:
  assumes "setsRef < nextAddr h" and "setCells h setsRef = we_sets exercise"
    and "exercisesRef < nextAddr h" and "workout st = Some w"
    and "exCells h exercisesRef = wk_exercises w"
  shows
    "(let first = getDisplaySetsH pc exercise setsRef h;
          second = getDisplaySetsH pc exercise setsRef (snd first)
      in setCells (snd first) (fst first) = getDisplaySets pc exercise \<and>
         setCells (snd second) (fst second) = getDisplaySets pc exercise \<and>
         setCells (snd second) (fst first) = getDisplaySets pc exercise \<and>
         (\<forall>a < nextAddr h.
            setCells (snd first) a = setCells h a \<and> exCells (snd first) a = exCells h a \<and>
            setCells (snd second) a = setCells h a \<and> exCells (snd second) a = exCells h a)) \<and>
     (let first = getDisplayExercisesH st exercisesRef h;
          second = getDisplayExercisesH st exercisesRef (snd first)
      in exCells (snd first) (fst first) = getDisplayExercises st \<and>
         exCells (snd second) (fst second) = getDisplayExercises st \<and>
         exCells (snd second) (fst first) = getDisplayExercises st \<and>
         (\<forall>a < nextAddr h.
            setCells (snd first) a = setCells h a \<and> exCells (snd first) a = exCells h a \<and>
            setCells (snd second) a = setCells h a \<and> exCells (snd second) a = exCells h a))"
proof -
  define f1 where "f1 = getDisplaySetsH pc exercise setsRef h"
  define f2 where "f2 = getDisplaySetsH pc exercise setsRef (snd f1)"
  define g1 where "g1 = getDisplayExercisesH st exercisesRef h"
  define g2 where "g2 = getDisplayExercisesH st exercisesRef (snd g1)"
  have f1r: "setCells (snd f1) (fst f1) = getDisplaySets pc exercise"
    unfolding f1_def using assms(2) by (rule getDisplaySetsH_result(1))
  have f1g: "nextAddr h \<le> nextAddr (snd f1)" unfolding f1_def by (rule getDisplaySetsH_grows)
  have f1u: "fst f1 < nextAddr (snd f1)"
    unfolding f1_def using assms(2) by (rule getDisplaySetsH_result(3))
  have f1s: "setCells (snd f1) a = setCells h a" if "a < nextAddr h" for a
    unfolding f1_def using that by (rule getDisplaySetsH_frame(1))
  have f1e: "exCells (snd f1) a = exCells h a" if "a < nextAddr h" for a
    unfolding f1_def using that by (rule getDisplaySetsH_frame(2))
  have in1: "setCells (snd f1) setsRef = we_sets exercise" using f1s [OF assms(1)] assms(2) by simp
  have f2r: "setCells (snd f2) (fst f2) = getDisplaySets pc exercise"
    unfolding f2_def using in1 by (rule getDisplaySetsH_result(1))
  have f2s: "setCells (snd f2) a = setCells (snd f1) a" if "a < nextAddr (snd f1)" for a
    unfolding f2_def using that by (rule getDisplaySetsH_frame(1))
  have f2e: "exCells (snd f2) a = exCells (snd f1) a" if "a < nextAddr (snd f1)" for a
    unfolding f2_def using that by (rule getDisplaySetsH_frame(2))
  have f2k: "setCells (snd f2) (fst f1) = getDisplaySets pc exercise"
    using f2s [OF f1u] f1r by simp
  have fa: "setCells (snd f1) a = setCells h a \<and> exCells (snd f1) a = exCells h a \<and>
      setCells (snd f2) a = setCells h a \<and> exCells (snd f2) a = exCells h a"
    if "a < nextAddr h" for a
  proof -
    have "a < nextAddr (snd f1)" using that f1g by simp
    then show ?thesis using f1s [OF that] f1e [OF that] f2s f2e by simp
  qed
  have g1r: "exCells (snd g1) (fst g1) = getDisplayExercises st"
    unfolding g1_def using assms(4,5) by (rule getDisplayExercisesH_result(1))
  have g1g: "nextAddr h \<le> nextAddr (snd g1)" unfolding g1_def by (rule getDisplayExercisesH_grows)
  have g1u: "fst g1 < nextAddr (snd g1)"
    unfolding g1_def using assms(4,5) by (rule getDisplayExercisesH_result(3))
  have g1e: "exCells (snd g1) a = exCells h a" if "a < nextAddr h" for a
    unfolding g1_def using that by (rule getDisplayExercisesH_frame(1))
  have g1s: "setCells (snd g1) a = setCells h a" if "a < nextAddr h" for a
    unfolding g1_def using that by (rule getDisplayExercisesH_frame(2))
  have in2: "exCells (snd g1) exercisesRef = wk_exercises w"
    using g1e [OF assms(3)] assms(5) by simp
  have g2r: "exCells (snd g2) (fst g2) = getDisplayExercises st"
    unfolding g2_def using assms(4) in2 by (rule getDisplayExercisesH_result(1))
  have g2e: "exCells (snd g2) a = exCells (snd g1) a" if "a < nextAddr (snd g1)" for a
    unfolding g2_def using that by (rule getDisplayExercisesH_frame(1))
  have g2s: "setCells (snd g2) a = setCells (snd g1) a" if "a < nextAddr (snd g1)" for a
    unfolding g2_def using that by (rule getDisplayExercisesH_frame(2))
  have g2k: "exCells (snd g2) (fst g1) = getDisplayExercises st"
    using g2e [OF g1u] g1r by simp
  have ga: "setCells (snd g1) a = setCells h a \<and> exCells (snd g1) a = exCells h a \<and>
      setCells (snd g2) a = setCells h a \<and> exCells (snd g2) a = exCells h a"
    if "a < nextAddr h" for a
  proof -
    have "a < nextAddr (snd g1)" using that g1g by simp
    then show ?thesis using g1s [OF that] g1e [OF that] g2s g2e by simp
  qed
  show ?thesis
    unfolding Let_def f1_def [symmetric] f2_def [symmetric] g1_def [symmetric] g2_def [symmetric]
    using f1r f2r f2k fa g1r g2r g2k ga by blast
qed

theorem C6_projections_pure_witness:
  "nextAddr sampleHeap = 2 \<and>
   setCells sampleHeap 0 = we_sets sampleExercise3 \<and>
   exCells sampleHeap 1 = wk_exercises sampleData \<and>
   map ws_id (setCells
      (snd (getDisplaySetsH (pendingChanges stateSet5Deleted) sampleExercise3 0 sampleHeap))
      (fst (getDisplaySetsH (pendingChanges stateSet5Deleted) sampleExercise3 0 sampleHeap)))
     = [Num 6] \<and>
   setCells (snd (getDisplaySetsH (pendingChanges stateSet5Deleted) sampleExercise3 0
      (snd (getDisplaySetsH (pendingChanges stateSet5Deleted) sampleExercise3 0 sampleHeap)))) 0
     = we_sets sampleExercise3 \<and>
   map we_id (exCells (snd (getDisplayExercisesH stateNewExercise 1 sampleHeap))
      (fst (getDisplayExercisesH stateNewExercise 1 sampleHeap))) = [Num 3, Num (- 7)] \<and>
   exCells (snd (getDisplayExercisesH stateNewExercise 1
      (snd (getDisplayExercisesH stateNewExercise 1 sampleHeap)))) 1 = wk_exercises sampleData"
proof -
  have n: "nextAddr sampleHeap = 2" by (simp add: sampleHeap_def)
  have a1: "0 < nextAddr sampleHeap" and a3: "1 < nextAddr sampleHeap" unfolding n by simp_all
  have a2: "setCells sampleHeap 0 = we_sets sampleExercise3" by (simp add: sampleHeap_def)
  have a4: "workout stateNewExercise = Some sampleData" by code_simp
  have a5: "exCells sampleHeap 1 = wk_exercises sampleData" by (simp add: sampleHeap_def)
  have d: "map ws_id (getDisplaySets (pendingChanges stateSet5Deleted) sampleExercise3) = [Num 6]"
    by code_simp
  have e: "map we_id (getDisplayExercises stateNewExercise) = [Num 3, Num (- 7)]"
    by code_simp
  note t = C6_projections_pure [OF a1 a2 a3 a4 a5, of "pendingChanges stateSet5Deleted",
      unfolded Let_def]
  from t have t1: "setCells
      (snd (getDisplaySetsH (pendingChanges stateSet5Deleted) sampleExercise3 0 sampleHeap))
      (fst (getDisplaySetsH (pendingChanges stateSet5Deleted) sampleExercise3 0 sampleHeap))
      = getDisplaySets (pendingChanges stateSet5Deleted) sampleExercise3"
    by blast
  from t a1 have "setCells (snd (getDisplaySetsH (pendingChanges stateSet5Deleted) sampleExercise3 0
      (snd (getDisplaySetsH (pendingChanges stateSet5Deleted) sampleExercise3 0 sampleHeap)))) 0
      = setCells sampleHeap 0"
    by blast
  then have t2: "setCells (snd (getDisplaySetsH (pendingChanges stateSet5Deleted) sampleExercise3 0
      (snd (getDisplaySetsH (pendingChanges stateSet5Deleted) sampleExercise3 0 sampleHeap)))) 0
      = we_sets sampleExercise3"
    unfolding a2 .
  from t have t3: "exCells (snd (getDisplayExercisesH stateNewExercise 1 sampleHeap))
      (fst (getDisplayExercisesH stateNewExercise 1 sampleHeap)) = getDisplayExercises stateNewExercise"
    by blast
  from t a3 have "exCells (snd (getDisplayExercisesH stateNewExercise 1
      (snd (getDisplayExercisesH stateNewExercise 1 sampleHeap)))) 1 = exCells sampleHeap 1"
    by blast
  then have t4: "exCells (snd (getDisplayExercisesH stateNewExercise 1
      (snd (getDisplayExercisesH stateNewExercise 1 sampleHeap)))) 1 = wk_exercises sampleData"
    unfolding a5 .
  show ?thesis using n a2 a5 d e t1 t2 t3 t4 by simp
qed

end
